theory Spec2Isabelle
  imports Main "HOL-Library.Char_ord" "HOL-Library.List_Lexorder"
begin

section \<open>EdgeGit: Git Smart HTTP over a blob store\<close>

text \<open>
  The program is \<^verbatim>\<open>src/index.ts\<close>. A \<^verbatim>\<open>Uint8Array\<close> is a list of 8-bit characters.
  A JavaScript string is represented by its UTF-8 encoding, so \<^verbatim>\<open>encoder.encode\<close> is the
  identity and \<^verbatim>\<open>decoder.decode\<close> is the UTF-8 decoder of the platform: it drops a leading
  byte order mark and replaces every ill-formed sequence by U+FFFD. Every string of the
  program is a literal, a decoded string or a part of one, hence well formed, and equality,
  concatenation and splitting at an ASCII character agree in both representations.
  A JavaScript number is an \<open>int option\<close>, \<open>None\<close> being \<^verbatim>\<open>NaN\<close>.
\<close>

subsection \<open>Bytes, strings and numbers of the platform\<close>

type_synonym bytes = "char list"

type_synonym number = "int option"

definition byte :: "char \<Rightarrow> nat" where
  "byte c = of_char c"

definition replacement :: string where
  "replacement = [CHR 0xEF, CHR 0xBF, CHR 0xBD]"

text \<open>The UTF-8 decoder: \<open>needed\<close> continuation bytes are still expected, the next one within
  \<open>lo..hi\<close>; \<open>pend\<close> holds the bytes of the sequence read so far. A byte out of range ends
  the sequence with U+FFFD and is read again.\<close>

fun utf8 :: "nat \<Rightarrow> nat \<Rightarrow> nat \<Rightarrow> bytes \<Rightarrow> bytes \<Rightarrow> string" where
  "utf8 needed lo hi pend [] = (if needed = 0 then [] else replacement)"
| "utf8 needed lo hi pend (b # bs) =
     (if needed = 0 then
        (if byte b \<le> 0x7F then b # utf8 0 0x80 0xBF [] bs
         else if 0xC2 \<le> byte b \<and> byte b \<le> 0xDF then utf8 1 0x80 0xBF [b] bs
         else if 0xE0 \<le> byte b \<and> byte b \<le> 0xEF then
           utf8 2 (if byte b = 0xE0 then 0xA0 else 0x80) (if byte b = 0xED then 0x9F else 0xBF) [b] bs
         else if 0xF0 \<le> byte b \<and> byte b \<le> 0xF4 then
           utf8 3 (if byte b = 0xF0 then 0x90 else 0x80) (if byte b = 0xF4 then 0x8F else 0xBF) [b] bs
         else replacement @ utf8 0 0x80 0xBF [] bs)
      else if byte b < lo \<or> hi < byte b then replacement @ utf8 0 0x80 0xBF [] (b # bs)
      else if needed = 1 then pend @ [b] @ utf8 0 0x80 0xBF [] bs
      else utf8 (needed - 1) 0x80 0xBF (pend @ [b]) bs)"

definition decode :: "bytes \<Rightarrow> string" where
  "decode bs =
     utf8 0 0x80 0xBF [] (if take 3 bs = [CHR 0xEF, CHR 0xBB, CHR 0xBF] then drop 3 bs else bs)"

definition encode :: "string \<Rightarrow> bytes" where
  "encode s = s"

text \<open>White space and line terminators of ECMAScript, as UTF-8: one, two or three bytes.\<close>

definition ws1 :: "char \<Rightarrow> bool" where
  "ws1 a = (byte a \<in> {0x09, 0x0A, 0x0B, 0x0C, 0x0D, 0x20})"

definition ws2 :: "char \<Rightarrow> char \<Rightarrow> bool" where
  "ws2 a b = (byte a = 0xC2 \<and> byte b = 0xA0)"

definition ws3 :: "char \<Rightarrow> char \<Rightarrow> char \<Rightarrow> bool" where
  "ws3 a b c =
     ((byte a = 0xE1 \<and> byte b = 0x9A \<and> byte c = 0x80) \<or>
      (byte a = 0xE2 \<and> byte b = 0x80 \<and>
         ((0x80 \<le> byte c \<and> byte c \<le> 0x8A) \<or> byte c = 0xA8 \<or> byte c = 0xA9 \<or> byte c = 0xAF)) \<or>
      (byte a = 0xE2 \<and> byte b = 0x81 \<and> byte c = 0x9F) \<or>
      (byte a = 0xE3 \<and> byte b = 0x80 \<and> byte c = 0x80) \<or>
      (byte a = 0xEF \<and> byte b = 0xBB \<and> byte c = 0xBF))"

fun trimStart :: "string \<Rightarrow> string" where
  "trimStart (a # b # c # s) =
     (if ws1 a then trimStart (b # c # s)
      else if ws2 a b then trimStart (c # s)
      else if ws3 a b c then trimStart s
      else a # b # c # s)"
| "trimStart [a, b] = (if ws1 a then trimStart [b] else if ws2 a b then [] else [a, b])"
| "trimStart [a] = (if ws1 a then [] else [a])"
| "trimStart [] = []"

text \<open>The same from the end, on the reversed string.\<close>

fun trimStartRev :: "string \<Rightarrow> string" where
  "trimStartRev (c # b # a # s) =
     (if ws1 c then trimStartRev (b # a # s)
      else if ws2 b c then trimStartRev (a # s)
      else if ws3 a b c then trimStartRev s
      else c # b # a # s)"
| "trimStartRev [c, b] = (if ws1 c then trimStartRev [b] else if ws2 b c then [] else [c, b])"
| "trimStartRev [c] = (if ws1 c then [] else [c])"
| "trimStartRev [] = []"

definition trimEnd :: "string \<Rightarrow> string" where
  "trimEnd s = rev (trimStartRev (rev s))"

definition trim :: "string \<Rightarrow> string" where
  "trim s = trimEnd (trimStart s)"

text \<open>\<^verbatim>\<open>s.split(sep)\<close> for a separator of one character: never the empty list.\<close>

fun split :: "char \<Rightarrow> string \<Rightarrow> string list" where
  "split sep [] = [[]]"
| "split sep (c # s) =
     (if c = sep then [] # split sep s
      else (case split sep s of t # ts \<Rightarrow> (c # t) # ts | [] \<Rightarrow> [[c]]))"

text \<open>\<^verbatim>\<open>n.toString(16)\<close> of a non-negative integer and \<^verbatim>\<open>s.padStart(4, "0")\<close>.\<close>

definition hexDigit :: "nat \<Rightarrow> char" where
  "hexDigit d = ''0123456789abcdef'' ! d"

fun toString16 :: "nat \<Rightarrow> string" where
  "toString16 n = (if n < 16 then [hexDigit n] else toString16 (n div 16) @ [hexDigit (n mod 16)])"

declare toString16.simps [simp del]

definition padStart :: "nat \<Rightarrow> char \<Rightarrow> string \<Rightarrow> string" where
  "padStart w c s = replicate (w - length s) c @ s"

text \<open>\<^verbatim>\<open>parseInt(s, 16)\<close>: leading white space, a sign, the prefix \<^verbatim>\<open>0x\<close>, then the longest
  run of hexadecimal digits; \<^verbatim>\<open>NaN\<close> when that run is empty.\<close>

definition digitVal :: "char \<Rightarrow> nat option" where
  "digitVal c =
     (if CHR ''0'' \<le> c \<and> c \<le> CHR ''9'' then Some (byte c - 48)
      else if CHR ''a'' \<le> c \<and> c \<le> CHR ''f'' then Some (byte c - 87)
      else if CHR ''A'' \<le> c \<and> c \<le> CHR ''F'' then Some (byte c - 55)
      else None)"

definition isHexDigit :: "char \<Rightarrow> bool" where
  "isHexDigit c = (digitVal c \<noteq> None)"

definition hexValue :: "string \<Rightarrow> nat" where
  "hexValue z = foldl (\<lambda>a c. 16 * a + the (digitVal c)) 0 z"

definition parseInt16 :: "string \<Rightarrow> number" where
  "parseInt16 inputString =
     (let S = trimStart inputString;
          sign = (if take 1 S = ''-'' then - 1 else 1);
          S1 = (if take 1 S = ''+'' \<or> take 1 S = ''-'' then drop 1 S else S);
          S2 = (if take 2 S1 = ''0x'' \<or> take 2 S1 = ''0X'' then drop 2 S1 else S1);
          Z = takeWhile isHexDigit S2
      in if Z = [] then None else Some (sign * int (hexValue Z)))"

text \<open>Arithmetic of numbers: \<^verbatim>\<open>NaN\<close> is contagious, and an index that is \<^verbatim>\<open>NaN\<close> counts as 0.\<close>

definition addN :: "number \<Rightarrow> number \<Rightarrow> number" where
  "addN a b = (case (a, b) of (Some x, Some y) \<Rightarrow> Some (x + y) | _ \<Rightarrow> None)"

definition toIndex :: "number \<Rightarrow> int" where
  "toIndex a = (case a of None \<Rightarrow> 0 | Some x \<Rightarrow> x)"

text \<open>\<^verbatim>\<open>buf.slice(from, to)\<close>: a negative index counts from the end, both are clamped.\<close>

definition relIndex :: "int \<Rightarrow> number \<Rightarrow> int" where
  "relIndex n a = (if toIndex a < 0 then max (n + toIndex a) 0 else min (toIndex a) n)"

definition slice :: "bytes \<Rightarrow> number \<Rightarrow> number \<Rightarrow> bytes" where
  "slice buf from to =
     (let n = int (length buf);
          k = relIndex n from;
          final = relIndex n to
      in take (nat (final - k)) (drop (nat k) buf))"

definition sliceFrom :: "bytes \<Rightarrow> number \<Rightarrow> bytes" where
  "sliceFrom buf from = slice buf from (Some (int (length buf)))"

subsection \<open>Basic tools\<close>

text \<open>\<^verbatim>\<open>out.set(src, offset)\<close> on a typed array; the program never writes past the end.\<close>

definition set_at :: "bytes \<Rightarrow> bytes \<Rightarrow> nat \<Rightarrow> bytes" where
  "set_at out src offset = take offset out @ src @ drop (offset + length src) out"

definition pktLine :: "bytes \<Rightarrow> bytes" where
  "pktLine payload =
     (let len = length payload + 4;
          header = encode (padStart 4 (CHR ''0'') (toString16 len));
          out = replicate len (CHR 0x00)
      in set_at (set_at out header 0) payload 4)"

definition pktFlush :: bytes where
  "pktFlush = encode ''0000''"

definition sidebandPacket :: "bytes \<Rightarrow> bytes" where
  "sidebandPacket data = pktLine (CHR 0x01 # data)"

definition zeroOid :: string where
  "zeroOid = ''0000000000000000000000000000000000000000''"

definition join :: "string list \<Rightarrow> string" where
  "join p = (case p of [] \<Rightarrow> [] | x # xs \<Rightarrow> x @ concat (map (\<lambda>y. ''/'' @ y) xs))"

text \<open>\<^verbatim>\<open>concat(chunks)\<close>: a zeroed array of the total length, each chunk copied at its offset.\<close>

fun copy_chunks :: "bytes \<Rightarrow> nat \<Rightarrow> bytes list \<Rightarrow> bytes" where
  "copy_chunks out offset [] = out"
| "copy_chunks out offset (c # chunks) = copy_chunks (set_at out c offset) (offset + length c) chunks"

definition concat_chunks :: "bytes list \<Rightarrow> bytes" where
  "concat_chunks chunks =
     (let total = foldl (\<lambda>s c. s + length c) 0 chunks
      in copy_chunks (replicate total (CHR 0x00)) 0 chunks)"

subsection \<open>The blob store\<close>

text \<open>
  The bucket is the external collaborator of the program; it follows the contract of the
  specification (section 6): \<^verbatim>\<open>put(key, bytes)\<close>, \<^verbatim>\<open>get(key)\<close> giving the object or nothing, and
  \<^verbatim>\<open>list(prefix)\<close> giving every object whose key starts with the prefix, in the order of the
  keys, cut at \<^verbatim>\<open>limit\<close> when one is given. An object carries its key, the time of its upload
  and its content; the time is given to \<open>R2_put\<close> by the caller of the model. A bucket holds
  one object for a key.
\<close>

record R2Object =
  key :: string
  uploaded :: nat
  blob :: bytes

type_synonym R2Bucket = "R2Object list"

definition wf_bucket :: "R2Bucket \<Rightarrow> bool" where
  "wf_bucket st = distinct (map key st)"

definition startsWith :: "string \<Rightarrow> string \<Rightarrow> bool" where
  "startsWith s prefix = (take (length prefix) s = prefix)"

definition R2_put :: "nat \<Rightarrow> string \<Rightarrow> bytes \<Rightarrow> R2Bucket \<Rightarrow> R2Bucket" where
  "R2_put t k v st = filter (\<lambda>obj. key obj \<noteq> k) st @ [\<lparr>key = k, uploaded = t, blob = v\<rparr>]"

definition R2_get :: "R2Bucket \<Rightarrow> string \<Rightarrow> R2Object option" where
  "R2_get st k = find (\<lambda>obj. key obj = k) st"

definition R2_list :: "R2Bucket \<Rightarrow> string \<Rightarrow> nat option \<Rightarrow> R2Object list" where
  "R2_list st prefix limit =
     (let objects = sort_key key (filter (\<lambda>obj. startsWith (key obj) prefix) st)
      in case limit of None \<Rightarrow> objects | Some n \<Rightarrow> take n objects)"

datatype error = TypeError

record Response =
  status :: nat
  headers :: "(string \<times> string) list"
  body :: bytes

subsection \<open>Repository operations\<close>

definition repoExists :: "R2Bucket \<Rightarrow> string \<Rightarrow> string \<Rightarrow> bool" where
  "repoExists st org repo =
     (let list = R2_list st (join [''repos'', org, repo]) (Some 1)
      in length list > 0)"

text \<open>\<^verbatim>\<open>refs[k] = v\<close> on an object whose keys are no array indices: a new key goes last.\<close>

fun assign :: "(string \<times> string) list \<Rightarrow> string \<Rightarrow> string \<Rightarrow> (string \<times> string) list" where
  "assign [] k v = [(k, v)]"
| "assign ((k', v') # refs) k v = (if k' = k then (k, v) # refs else (k', v') # assign refs k v)"

text \<open>The loop of \<^verbatim>\<open>listRefs\<close>; \<^verbatim>\<open>data!.text()\<close> throws when \<^verbatim>\<open>get\<close> gave nothing.\<close>

fun listRefs_loop ::
  "R2Bucket \<Rightarrow> string \<Rightarrow> R2Object list \<Rightarrow> (string \<times> string) list \<Rightarrow> error + (string \<times> string) list" where
  "listRefs_loop st prefix [] refs = Inr refs"
| "listRefs_loop st prefix (obj # objects) refs =
     (let name = drop (length prefix) (key obj)
      in case R2_get st (key obj) of
           None \<Rightarrow> Inl TypeError
         | Some data \<Rightarrow>
             (let sha = trim (decode (blob data))
              in listRefs_loop st prefix objects
                   (if sha \<noteq> [] then assign refs (''refs/heads/'' @ name) sha else refs)))"

definition listRefs :: "R2Bucket \<Rightarrow> string \<Rightarrow> string \<Rightarrow> error + (string \<times> string) list" where
  "listRefs st org repo =
     (let prefix = join [''repos'', org, repo, ''refs/heads/''];
          list = R2_list st prefix None
      in listRefs_loop st prefix list [])"

definition initRepo :: "nat \<Rightarrow> R2Bucket \<Rightarrow> string \<Rightarrow> string \<Rightarrow> R2Bucket" where
  "initRepo now st org repo =
     (let base = join [''repos'', org, repo];
          st1 = R2_put now (join [base, ''HEAD'']) (encode ''ref: refs/heads/main\<newline>'') st
      in R2_put now (join [base, ''refs/heads/main'']) (encode (zeroOid @ ''\<newline>'')) st1)"

definition readRef :: "R2Bucket \<Rightarrow> string \<Rightarrow> string \<Rightarrow> string" where
  "readRef st base ref =
     (case R2_get st (join [base, ref]) of
        None \<Rightarrow> zeroOid
      | Some obj \<Rightarrow> (let text = trim (decode (blob obj)) in if text = [] then zeroOid else text))"

subsection \<open>info/refs\<close>

definition capabilities :: "string \<Rightarrow> string" where
  "capabilities service =
     (if service = ''git-receive-pack''
      then ''report-status delete-refs side-band-64k quiet atomic ofs-delta''
      else ''multi_ack_detailed multi_ack thin-pack side-band side-band-64k ofs-delta shallow no-progress include-tag'')"

text \<open>The loop over \<^verbatim>\<open>Object.entries(refs)\<close>, with its flag \<^verbatim>\<open>first\<close>.\<close>

fun advertise :: "string \<Rightarrow> bool \<Rightarrow> (string \<times> string) list \<Rightarrow> bytes list" where
  "advertise service first [] = []"
| "advertise service first ((ref, sha) # refs) =
     (if first
      then pktLine (encode ((if sha \<noteq> [] then sha else zeroOid) @ '' '' @ ref @ [CHR 0x00]
                              @ capabilities service @ ''\<newline>''))
             # advertise service False refs
      else pktLine (encode (sha @ '' '' @ ref @ ''\<newline>'')) # advertise service first refs)"

definition handleInfoRefs ::
  "nat \<Rightarrow> R2Bucket \<Rightarrow> string \<Rightarrow> string \<Rightarrow> string \<Rightarrow> error + R2Bucket \<times> Response" where
  "handleInfoRefs now st org repo service =
     (let exists = repoExists st org repo;
          st1 = (if \<not> exists \<and> service = ''git-receive-pack'' then initRepo now st org repo else st)
      in if \<not> exists \<and> service = ''git-upload-pack''
         then Inr (st1, \<lparr>status = 404, headers = [], body = encode ''Repository not found''\<rparr>)
         else (case listRefs st1 org repo of
                 Inl e \<Rightarrow> Inl e
               | Inr refs \<Rightarrow>
                   (let out = [pktLine (encode (''# service='' @ service @ ''\<newline>'')), pktFlush]
                              @ advertise service True refs @ [pktFlush]
                    in Inr (st1, \<lparr>status = 200,
                                  headers = [(''Content-Type'', ''application/x-'' @ service @ ''-advertisement'')],
                                  body = concat_chunks out\<rparr>))))"

subsection \<open>git-upload-pack\<close>

definition MAX_pkt :: nat where
  "MAX_pkt = 65500"

text \<open>The loop \<^verbatim>\<open>for (let i = 0; i < packData.length; i += MAX)\<close>.\<close>

function upload_chunks :: "bytes \<Rightarrow> nat \<Rightarrow> bytes list \<Rightarrow> bytes list" where
  "upload_chunks packData i chunks =
     (if i < length packData
      then (let part = slice packData (Some (int i)) (Some (int (i + MAX_pkt)));
                side = set_at (set_at (replicate (length part + 1) (CHR 0x00)) [CHR 0x01] 0) part 1
            in upload_chunks packData (i + MAX_pkt) (chunks @ [pktLine side]))
      else chunks)"
  by pat_completeness auto

termination
  by (relation "measure (\<lambda>(packData, i, chunks). length packData - i)") (auto simp: MAX_pkt_def)

declare upload_chunks.simps [simp del]

definition handleUploadPack :: "R2Bucket \<Rightarrow> string \<Rightarrow> string \<Rightarrow> error + Response" where
  "handleUploadPack st org repo =
     (let prefix = join [''repos'', org, repo, ''objects/pack/''];
          list = R2_list st prefix None
      in if length list = 0
         then Inr \<lparr>status = 200,
                   headers = [(''Content-Type'', ''application/x-git-upload-pack-result'')],
                   body = pktFlush\<rparr>
         else (let latest = hd (sort_key (\<lambda>obj. - int (uploaded obj)) list)
               in case R2_get st (key latest) of
                    None \<Rightarrow> Inl TypeError
                  | Some packObj \<Rightarrow>
                      (let packData = blob packObj;
                           chunks = upload_chunks packData 0 [] @ [pktFlush]
                       in Inr \<lparr>status = 200,
                                headers = [(''Content-Type'', ''application/x-git-upload-pack-result'')],
                                body = concat_chunks chunks\<rparr>)))"

subsection \<open>git-receive-pack\<close>

record command =
  old :: string
  new :: string
  ref :: string

text \<open>\<^verbatim>\<open>findPackStart\<close>: the scan stops before \<^verbatim>\<open>buf.length - 4\<close>.\<close>

function findPackStart_from :: "bytes \<Rightarrow> nat \<Rightarrow> nat" where
  "findPackStart_from buf i =
     (if int i < int (length buf) - 4
      then (if buf ! i = CHR 0x50 \<and> buf ! (i + 1) = CHR 0x41 \<and> buf ! (i + 2) = CHR 0x43
               \<and> buf ! (i + 3) = CHR 0x4B
            then i
            else findPackStart_from buf (i + 1))
      else 0)"
  by pat_completeness auto

termination
  by (relation "measure (\<lambda>(buf, i). length buf - i)") auto

declare findPackStart_from.simps [simp del]

definition findPackStart :: "bytes \<Rightarrow> nat" where
  "findPackStart buf = findPackStart_from buf 0"

text \<open>One pkt-line of the command section, as the body of the loop of \<^verbatim>\<open>parseReceiveCommands\<close>
  reads it at offset \<open>i\<close>: the length field and the bytes of the line.\<close>

definition frame_len :: "bytes \<Rightarrow> number \<Rightarrow> number" where
  "frame_len buf i = parseInt16 (decode (slice buf i (addN i (Some 4))))"

definition frame_payload :: "bytes \<Rightarrow> number \<Rightarrow> bytes" where
  "frame_payload buf i = slice buf (addN i (Some 4)) (addN i (frame_len buf i))"

text \<open>The destructuring \<^verbatim>\<open>[oldSha, newSha, refPart] = line.trim().split(" ")\<close>; with fewer than
  three parts \<^verbatim>\<open>refPart\<close> is undefined and \<^verbatim>\<open>refPart.split\<close> throws.\<close>

definition parse_command :: "string \<Rightarrow> error + command" where
  "parse_command line =
     (case split (CHR '' '') (trim line) of
        oldSha # newSha # refPart # _ \<Rightarrow>
          Inr \<lparr>old = oldSha, new = newSha, ref = hd (split (CHR 0x00) refPart)\<rparr>
      | _ \<Rightarrow> Inl TypeError)"

text \<open>The loop of \<^verbatim>\<open>parseReceiveCommands\<close>. The offset \<open>i\<close> is a number: \<^verbatim>\<open>i += len\<close> may make
  it negative or \<^verbatim>\<open>NaN\<close>. The loop ends at a length 0, or by the exception of a line with
  fewer than three parts; its termination is proved below.\<close>

function parse_loop :: "bytes \<Rightarrow> number \<Rightarrow> command list \<Rightarrow> error + command list" where
  "parse_loop buf i commands =
     (let len = frame_len buf i
      in if len = Some 0 then Inr commands
         else (case parse_command (decode (frame_payload buf i)) of
                 Inl e \<Rightarrow> Inl e
               | Inr cmd \<Rightarrow> parse_loop buf (addN i len) (commands @ [cmd])))"
  by pat_completeness auto

definition parseReceiveCommands :: "bytes \<Rightarrow> error + command list \<times> nat" where
  "parseReceiveCommands buf =
     (case parse_loop buf (Some 0) [] of
        Inl e \<Rightarrow> Inl e
      | Inr commands \<Rightarrow> Inr (commands, findPackStart buf))"

text \<open>One turn of the loop of \<^verbatim>\<open>handleReceivePack\<close>, after \<^verbatim>\<open>await readRef\<close> has given
  \<open>current\<close>: the comparison, and the write or the rejection.\<close>

definition update_ref :: "nat \<Rightarrow> string \<Rightarrow> command \<Rightarrow> string \<Rightarrow> R2Bucket \<Rightarrow> R2Bucket \<times> bytes" where
  "update_ref now base cmd current st =
     (let oldSha = (if old cmd = zeroOid then zeroOid else old cmd)
      in if current \<noteq> oldSha \<and> oldSha \<noteq> zeroOid
         then (st, pktLine (encode (''ng '' @ ref cmd @ '' non-fast-forward\<newline>'')))
         else (R2_put now (join [base, ref cmd]) (encode (new cmd @ ''\<newline>'')) st,
               pktLine (encode (''ok '' @ ref cmd @ ''\<newline>''))))"

fun process_commands ::
  "nat \<Rightarrow> string \<Rightarrow> R2Bucket \<Rightarrow> bytes list \<Rightarrow> command list \<Rightarrow> R2Bucket \<times> bytes list" where
  "process_commands now base st results [] = (st, results)"
| "process_commands now base st results (cmd # commands) =
     (let current = readRef st base (ref cmd);
          (st', line) = update_ref now base cmd current st
      in process_commands now base st' (results @ [line]) commands)"

text \<open>\<^verbatim>\<open>handleReceivePack\<close>; \<open>uuid\<close> is what \<^verbatim>\<open>crypto.randomUUID()\<close> gives. An exception of the
  parser leaves the handler before any write.\<close>

definition handleReceivePack ::
  "nat \<Rightarrow> string \<Rightarrow> R2Bucket \<Rightarrow> string \<Rightarrow> string \<Rightarrow> bytes \<Rightarrow> R2Bucket \<times> (error + Response)" where
  "handleReceivePack now uuid st org repo buf =
     (case parseReceiveCommands buf of
        Inl e \<Rightarrow> (st, Inl e)
      | Inr (commands, packStart) \<Rightarrow>
          (let base = join [''repos'', org, repo];
               (st1, results) =
                  process_commands now base st [pktLine (encode ''unpack ok\<newline>'')] commands;
               pack = sliceFrom buf (Some (int packStart));
               st2 = (if length pack > 0
                      then (let hash = filter (\<lambda>c. c \<noteq> CHR ''-'') uuid
                            in R2_put now (join [base, ''objects/pack/pack-'' @ hash @ ''.pack'']) pack st1)
                      else st1);
               sideband = concat_chunks (map sidebandPacket results);
               final = concat_chunks [sideband, pktFlush]
           in (st2, Inr \<lparr>status = 200,
                         headers = [(''Content-Type'', ''application/x-git-receive-pack-result'')],
                         body = final\<rparr>)))"

subsection \<open>Notions of the statements\<close>

text \<open>Termination of the loop. A negative length field moves the offset back, and a negative
  offset counts from the end of the buffer; the place the next line is read from, \<open>phys\<close>,
  still moves forward whenever a line has its three parts, since such a line is not empty.\<close>

definition phys :: "bytes \<Rightarrow> int \<Rightarrow> int" where
  "phys buf i = (if 0 \<le> i then i else int (length buf) + i)"

text \<open>The four digits of a length below \<open>2 ^ 16\<close>.\<close>

definition hex4 :: "nat \<Rightarrow> string" where
  "hex4 n = [hexDigit (n div 16 div 16 div 16), hexDigit (n div 16 div 16 mod 16),
             hexDigit (n div 16 mod 16), hexDigit (n mod 16)]"

text \<open>A syntactically valid object id: 40 hexadecimal digits (the zero id is one). A ref record
  holds such an id and a newline.\<close>

definition valid_oid :: "string \<Rightarrow> bool" where
  "valid_oid s = (length s = 40 \<and> list_all isHexDigit s)"

definition ref_record_ok :: "bytes \<Rightarrow> bool" where
  "ref_record_ok content = (valid_oid (take 40 content) \<and> drop 40 content = ''\<newline>'')"

text \<open>The status line of a command: accepted or rejected.\<close>

definition status_line :: "command \<Rightarrow> string \<Rightarrow> bool" where
  "status_line cmd l =
     (l = ''ok '' @ ref cmd @ ''\<newline>'' \<or> l = ''ng '' @ ref cmd @ '' non-fast-forward\<newline>'')"

text \<open>The magic \<^verbatim>\<open>PACK\<close> stands somewhere in the bytes; the key a pack is stored under.\<close>

fun has_PACK :: "bytes \<Rightarrow> bool" where
  "has_PACK [] = False"
| "has_PACK (c # s) = (take 4 (c # s) = ''PACK'' \<or> has_PACK s)"

definition pack_key :: "string \<Rightarrow> string \<Rightarrow> string \<Rightarrow> string" where
  "pack_key org repo uuid =
     join [join [''repos'', org, repo], ''objects/pack/pack-'' @ filter (\<lambda>c. c \<noteq> CHR ''-'') uuid @ ''.pack'']"

text \<open>The keys of the refs of a repository, and the invariant: each of their records holds a
  valid object id and a newline.\<close>

definition is_ref_key :: "string \<Rightarrow> string \<Rightarrow> string \<Rightarrow> bool" where
  "is_ref_key org repo k = startsWith k (join [''repos'', org, repo, ''refs/''])"

definition refs_ok :: "string \<Rightarrow> string \<Rightarrow> R2Bucket \<Rightarrow> bool" where
  "refs_ok org repo st = (\<forall>obj\<in>set st. is_ref_key org repo (key obj) \<longrightarrow> ref_record_ok (blob obj))"

text \<open>The loop of \<open>parseReceiveCommands\<close> arrives at offset \<open>i\<close> with the commands read so far.
  A frame is malformed there when its length field reads as \<^verbatim>\<open>NaN\<close>, or when the length it
  declares runs past the end of the buffer.\<close>

inductive arrives :: "bytes \<Rightarrow> number \<Rightarrow> command list \<Rightarrow> bool" for buf :: bytes where
  start: "arrives buf (Some 0) []"
| step: "arrives buf i commands \<Longrightarrow> frame_len buf i \<noteq> Some 0 \<Longrightarrow>
         parse_command (decode (frame_payload buf i)) = Inr cmd \<Longrightarrow>
         arrives buf (addN i (frame_len buf i)) (commands @ [cmd])"

definition malformed_at :: "bytes \<Rightarrow> number \<Rightarrow> bool" where
  "malformed_at buf i =
     (case frame_len buf i of
        None \<Rightarrow> True
      | Some len \<Rightarrow> (case i of None \<Rightarrow> False | Some j \<Rightarrow> 0 \<le> j \<and> int (length buf) < j + len))"

text \<open>The packs of a repository, as \<open>handleUploadPack\<close> lists them.\<close>

definition packs_of :: "R2Bucket \<Rightarrow> string \<Rightarrow> string \<Rightarrow> R2Object list" where
  "packs_of st org repo =
     filter (\<lambda>obj. startsWith (key obj) (join [''repos'', org, repo, ''objects/pack/''])) st"

text \<open>
  A turn of the loop of \<open>handleReceivePack\<close> awaits the bucket twice: \<^verbatim>\<open>await readRef\<close>, then,
  after the comparison, \<^verbatim>\<open>await env.GIT_R2.put\<close>. Two requests that each carry one command
  are two tasks over one bucket: a task is about to read, or has read \<open>current\<close> and is
  about to compare and write, or is done with its status line. A step is one access of one
  task to the bucket; the steps of the two tasks interleave freely.
\<close>

datatype task = Reading command | Writing command string | Done bytes

inductive run_step ::
  "nat \<Rightarrow> string \<Rightarrow> R2Bucket \<times> task \<times> task \<Rightarrow> R2Bucket \<times> task \<times> task \<Rightarrow> bool"
  for now :: nat and base :: string where
  read1: "run_step now base (st, Reading c, t) (st, Writing c (readRef st base (ref c)), t)"
| write1: "update_ref now base c current st = (st', line) \<Longrightarrow>
           run_step now base (st, Writing c current, t) (st', Done line, t)"
| read2: "run_step now base (st, t, Reading c) (st, t, Writing c (readRef st base (ref c)))"
| write2: "update_ref now base c current st = (st', line) \<Longrightarrow>
           run_step now base (st, t, Writing c current) (st', t, Done line)"

section \<open>Termination of the parser\<close>

lemma decode_Nil: "decode [] = []"
  by (simp add: decode_def)

lemma trim_Nil: "trim [] = []"
  by (simp add: trim_def trimEnd_def)

lemma parse_command_Nil: "parse_command [] = Inl TypeError"
  by (simp add: parse_command_def trim_Nil)

lemma parseInt16_Nil: "parseInt16 [] = None"
  by (simp add: parseInt16_def)

lemma slice_nonempty:
  "slice buf a b \<noteq> [] \<Longrightarrow>
     relIndex (int (length buf)) a < relIndex (int (length buf)) b \<and>
     relIndex (int (length buf)) a < int (length buf) \<and> 0 \<le> relIndex (int (length buf)) a"
  by (auto simp: slice_def Let_def relIndex_def split: if_splits)

lemma slice_NaN: "slice buf a None = []"
  by (simp add: slice_def relIndex_def toIndex_def Let_def)

lemma frame_len_Some_offset:
  assumes "frame_len buf i = Some len"
  shows "\<exists>j. i = Some j \<and> slice buf (Some j) (Some (j + 4)) \<noteq> []"
proof (cases i)
  case None
  with assms show ?thesis
    by (simp add: frame_len_def addN_def slice_NaN decode_Nil parseInt16_Nil)
next
  case (Some j)
  with assms have "decode (slice buf (Some j) (Some (j + 4))) \<noteq> []"
    using parseInt16_Nil by (auto simp: frame_len_def addN_def)
  then have "slice buf (Some j) (Some (j + 4)) \<noteq> []"
    using decode_Nil by auto
  with Some show ?thesis by simp
qed

lemma step_progress:
  assumes "frame_len buf i = Some len" "parse_command (decode (frame_payload buf i)) = Inr cmd"
  shows "\<exists>j. i = Some j \<and> phys buf j < int (length buf) \<and> phys buf j < phys buf (j + len)"
proof -
  from frame_len_Some_offset [OF assms(1)] obtain j where
    j: "i = Some j" and h: "slice buf (Some j) (Some (j + 4)) \<noteq> []" by blast
  from assms(2) have "frame_payload buf i \<noteq> []"
    using parse_command_Nil decode_Nil by force
  with j assms(1) have p: "slice buf (Some (j + 4)) (Some (j + len)) \<noteq> []"
    by (simp add: frame_payload_def addN_def)
  from slice_nonempty [OF h]
  have a: "relIndex (int (length buf)) (Some j) < relIndex (int (length buf)) (Some (j + 4))"
    and a': "relIndex (int (length buf)) (Some j) < int (length buf)"
    by simp_all
  from slice_nonempty [OF p]
  have b: "relIndex (int (length buf)) (Some (j + 4)) < relIndex (int (length buf)) (Some (j + len))"
    by simp
  from a a' b have "phys buf j < int (length buf) \<and> phys buf j < phys buf (j + len)"
    unfolding phys_def relIndex_def toIndex_def max_def min_def by (auto split: if_splits)
  with j show ?thesis by simp
qed

lemma frame_len_NaN_throws:
  assumes "frame_len buf i = None"
  shows "parse_command (decode (frame_payload buf i)) = Inl TypeError"
proof -
  from assms have "frame_payload buf i = []"
    by (simp add: frame_payload_def addN_def slice_NaN split: option.splits)
  then show ?thesis by (simp add: decode_Nil parse_command_Nil)
qed

termination parse_loop
proof (relation "measure (\<lambda>(buf, i, commands). nat (int (length buf) - phys buf (toIndex i)))")
  show "wf (measure (\<lambda>(buf, i, commands). nat (int (length buf) - phys buf (toIndex i))))"
    by simp
next
  fix buf i commands len cmd
  assume len: "len = frame_len buf i"
    and cmd: "parse_command (decode (frame_payload buf i)) = Inr cmd"
  have "len \<noteq> None"
    using frame_len_NaN_throws [of buf i] len cmd by auto
  then obtain l where l: "frame_len buf i = Some l" using len by auto
  from step_progress [OF l cmd] obtain j where
    "i = Some j" "phys buf j < int (length buf)" "phys buf j < phys buf (j + l)" by blast
  then show "((buf, addN i len, commands @ [cmd]), (buf, i, commands))
      \<in> measure (\<lambda>(buf, i, commands). nat (int (length buf) - phys buf (toIndex i)))"
    using l len by (simp add: addN_def toIndex_def)
qed

declare parse_loop.simps [simp del]

section \<open>The pkt-line codec\<close>

lemma hexDigit_all:
  "\<forall>d\<in>set [0..<16]. digitVal (hexDigit d) = Some d \<and> byte (hexDigit d) < 128 \<and> isHexDigit (hexDigit d)
     \<and> hexDigit d \<in> set ''0123456789abcdef'' \<and> \<not> ws1 (hexDigit d) \<and> hexDigit d \<noteq> CHR ''x''
     \<and> hexDigit d \<noteq> CHR ''X'' \<and> hexDigit d \<noteq> CHR ''+'' \<and> hexDigit d \<noteq> CHR ''-''
     \<and> byte (hexDigit d) < 0xC2"
  by code_simp

lemma hexDigit_props:
  assumes "d < 16"
  shows "digitVal (hexDigit d) = Some d" "byte (hexDigit d) < 128" "isHexDigit (hexDigit d)"
    "hexDigit d \<in> set ''0123456789abcdef''"
    "\<not> ws1 (hexDigit d)" "hexDigit d \<noteq> CHR ''x''" "hexDigit d \<noteq> CHR ''X''"
    "hexDigit d \<noteq> CHR ''+''" "hexDigit d \<noteq> CHR ''-''" "byte (hexDigit d) < 0xC2"
proof -
  from assms have "d \<in> set [0..<16]" by simp
  from bspec [OF hexDigit_all this]
  show "digitVal (hexDigit d) = Some d" "byte (hexDigit d) < 128" "isHexDigit (hexDigit d)"
    "hexDigit d \<in> set ''0123456789abcdef''"
    "\<not> ws1 (hexDigit d)" "hexDigit d \<noteq> CHR ''x''" "hexDigit d \<noteq> CHR ''X''"
    "hexDigit d \<noteq> CHR ''+''" "hexDigit d \<noteq> CHR ''-''" "byte (hexDigit d) < 0xC2"
    by blast+
qed

lemma replicate_small: "replicate 3 c = [c, c, c]" "replicate 2 c = [c, c]"
  by (simp_all add: numeral_3_eq_3 numeral_2_eq_2)

lemma toString16_hex4:
  assumes "n < 65536"
  shows "padStart 4 (CHR ''0'') (toString16 n) = hex4 n"
proof -
  have z: "hexDigit 0 = CHR ''0''" by (simp add: hexDigit_def)
  consider "n < 16" | "16 \<le> n" "n < 256" | "256 \<le> n" "n < 4096" | "4096 \<le> n" by linarith
  then show ?thesis
  proof cases
    case 1
    then show ?thesis by (simp add: toString16.simps [of n] padStart_def hex4_def z replicate_small)
  next
    case 2
    then have "n div 16 < 16" "n div 16 div 16 = 0" by auto
    with 2 show ?thesis
      by (simp add: toString16.simps [of n] toString16.simps [of "n div 16"] padStart_def hex4_def z
          replicate_small)
  next
    case 3
    then have "\<not> n div 16 < 16" "n div 16 div 16 < 16" "n div 16 div 16 div 16 = 0" by auto
    with 3 show ?thesis
      by (simp add: toString16.simps [of n] toString16.simps [of "n div 16"]
          toString16.simps [of "n div 16 div 16"] padStart_def hex4_def z replicate_small)
  next
    case 4
    with assms have "\<not> n div 16 < 16" "\<not> n div 16 div 16 < 16" "n div 16 div 16 div 16 < 16"
      by auto
    with 4 show ?thesis
      by (simp add: toString16.simps [of n] toString16.simps [of "n div 16"]
          toString16.simps [of "n div 16 div 16"] toString16.simps [of "n div 16 div 16 div 16"]
          padStart_def hex4_def z replicate_small)
  qed
qed

lemma length_hex4: "length (hex4 n) = 4"
  by (simp add: hex4_def)

lemma hex4_lowercase:
  assumes "n < 65536"
  shows "set (hex4 n) \<subseteq> set ''0123456789abcdef''"
proof -
  have "n div 16 div 16 div 16 < 16" "n div 16 div 16 mod 16 < 16" "n div 16 mod 16 < 16" "n mod 16 < 16"
    using assms by auto
  then show ?thesis
    unfolding hex4_def using hexDigit_props(4) by auto
qed

lemma hex4_ascii:
  assumes "n < 65536"
  shows "\<forall>c\<in>set (hex4 n). byte c < 128"
proof -
  have "n div 16 div 16 div 16 < 16" "n div 16 div 16 mod 16 < 16" "n div 16 mod 16 < 16" "n mod 16 < 16"
    using assms by auto
  then show ?thesis
    unfolding hex4_def using hexDigit_props(2) by auto
qed

lemma pktLine_hex4:
  assumes "length p + 4 < 65536"
  shows "pktLine p = hex4 (length p + 4) @ p"
  using assms by (simp add: pktLine_def Let_def toString16_hex4 encode_def set_at_def length_hex4)

lemma utf8_ascii: "\<forall>c\<in>set s. byte c < 128 \<Longrightarrow> utf8 0 lo hi pend s = s"
  by (induction s arbitrary: lo hi pend) auto

lemma decode_ascii:
  assumes a: "\<forall>c\<in>set s. byte c < 128"
  shows "decode s = s"
proof -
  have "take 3 s \<noteq> [CHR 0xEF, CHR 0xBB, CHR 0xBF]"
  proof
    assume "take 3 s = [CHR 0xEF, CHR 0xBB, CHR 0xBF]"
    then have "CHR 0xEF \<in> set (take 3 s)" by simp
    then have "CHR 0xEF \<in> set s" by (rule in_set_takeD)
    with a show False by (auto simp: byte_def)
  qed
  with a show ?thesis by (simp add: decode_def utf8_ascii)
qed

lemma slice_mid:
  "slice (pre @ mid @ post) (Some (int (length pre))) (Some (int (length pre) + int (length mid))) = mid"
  by (simp add: slice_def relIndex_def toIndex_def Let_def)

lemma parseInt16_hex4:
  assumes "n < 65536"
  shows "parseInt16 (hex4 n) = Some (int n)"
proof -
  define a b c d where "a = n div 16 div 16 div 16" and "b = n div 16 div 16 mod 16"
    and "c = n div 16 mod 16" and "d = n mod 16"
  define h where "h = [hexDigit a, hexDigit b, hexDigit c, hexDigit d]"
  have lt: "a < 16" "b < 16" "c < 16" "d < 16"
    using assms by (auto simp: a_def b_def c_def d_def)
  have "n = n div 16 * 16 + d" "n div 16 = n div 16 div 16 * 16 + c" "n div 16 div 16 = a * 16 + b"
    unfolding a_def b_def c_def d_def by simp_all
  then have n: "((a * 16 + b) * 16 + c) * 16 + d = n" by simp
  have t: "trimStart h = h"
    unfolding h_def using hexDigit_props(5,10) [OF lt(1)] by (auto simp: ws2_def ws3_def)
  have s: "take 1 h \<noteq> ''-''" "take 1 h \<noteq> ''+''"
    unfolding h_def using hexDigit_props(8,9) [OF lt(1)] by simp_all
  have p: "take 2 h \<noteq> ''0x''" "take 2 h \<noteq> ''0X''"
    unfolding h_def using hexDigit_props(6,7) [OF lt(2)] by (simp_all add: numeral_2_eq_2)
  have w: "takeWhile isHexDigit h = h"
    unfolding h_def using hexDigit_props(3) [OF lt(1)] hexDigit_props(3) [OF lt(2)]
      hexDigit_props(3) [OF lt(3)] hexDigit_props(3) [OF lt(4)] by simp
  have v: "hexValue h = ((a * 16 + b) * 16 + c) * 16 + d"
    unfolding h_def hexValue_def using hexDigit_props(1) [OF lt(1)] hexDigit_props(1) [OF lt(2)]
      hexDigit_props(1) [OF lt(3)] hexDigit_props(1) [OF lt(4)] by simp
  have ne: "h \<noteq> []" by (simp add: h_def)
  have "parseInt16 h = Some (int n)"
    unfolding parseInt16_def Let_def t using s p ne n by (simp add: w v)
  then show ?thesis by (simp add: h_def hex4_def a_def b_def c_def d_def)
qed

lemma frame_of_pktLine:
  assumes "length p + 4 < 65536"
  shows "frame_len (pre @ pktLine p @ post) (Some (int (length pre))) = Some (int (length p + 4))"
    and "frame_payload (pre @ pktLine p @ post) (Some (int (length pre))) = p"
proof -
  let ?n = "length p + 4"
  let ?buf = "pre @ pktLine p @ post"
  have buf: "?buf = pre @ hex4 ?n @ (p @ post)"
    by (simp add: pktLine_hex4 [OF assms])
  have "slice ?buf (Some (int (length pre))) (Some (int (length pre) + 4)) = hex4 ?n"
    unfolding buf using slice_mid [of pre "hex4 ?n" "p @ post"] by (simp add: length_hex4)
  then show len: "frame_len ?buf (Some (int (length pre))) = Some (int ?n)"
    by (simp add: frame_len_def addN_def decode_ascii [OF hex4_ascii [OF assms]]
        parseInt16_hex4 [OF assms])
  have buf': "?buf = (pre @ hex4 ?n) @ p @ post"
    by (simp add: pktLine_hex4 [OF assms])
  have "slice ?buf (Some (int (length pre) + 4)) (Some (int (length pre) + int ?n)) = p"
    unfolding buf' using slice_mid [of "pre @ hex4 ?n" p post] by (simp add: length_hex4 ac_simps)
  then show "frame_payload ?buf (Some (int (length pre))) = p"
    by (simp add: frame_payload_def len addN_def)
qed

text \<open>
  C3. For a payload of 0 to 65531 bytes, \<open>pktLine\<close> puts before it four lowercase
  hexadecimal digits that read as the length of the payload plus 4, and the reader of
  \<open>parseReceiveCommands\<close>, at the offset where the frame starts, reads that length and takes
  exactly the bytes of the payload.
\<close>

theorem pktLine_round_trip:
  assumes "length p \<le> 65531"
  shows "pktLine p = padStart 4 (CHR ''0'') (toString16 (length p + 4)) @ p
    \<and> length (padStart 4 (CHR ''0'') (toString16 (length p + 4))) = 4
    \<and> set (padStart 4 (CHR ''0'') (toString16 (length p + 4))) \<subseteq> set ''0123456789abcdef''
    \<and> parseInt16 (decode (take 4 (pktLine p))) = Some (int (length p) + 4)
    \<and> frame_len (pre @ pktLine p @ post) (Some (int (length pre))) = Some (int (length p) + 4)
    \<and> frame_payload (pre @ pktLine p @ post) (Some (int (length pre))) = p"
proof -
  from assms have n: "length p + 4 < 65536" by simp
  have h: "padStart 4 (CHR ''0'') (toString16 (length p + 4)) = hex4 (length p + 4)"
    by (rule toString16_hex4 [OF n])
  have "take 4 (pktLine p) = hex4 (length p + 4)"
    by (simp add: pktLine_hex4 [OF n] length_hex4)
  then have "parseInt16 (decode (take 4 (pktLine p))) = Some (int (length p) + 4)"
    by (simp add: decode_ascii [OF hex4_ascii [OF n]] parseInt16_hex4 [OF n])
  then show ?thesis
    using frame_of_pktLine [OF n, of pre post] hex4_lowercase [OF n]
    by (simp add: h pktLine_hex4 [OF n] length_hex4)
qed

theorem pktLine_round_trip_witness:
  "pktLine ''hello'' = ''0009hello''
    \<and> frame_len (''0000'' @ pktLine ''hello'' @ ''0000'') (Some 4) = Some 9
    \<and> frame_payload (''0000'' @ pktLine ''hello'' @ ''0000'') (Some 4) = ''hello''"
proof -
  have t: "toString16 9 = ''9''"
    by (subst toString16.simps) (simp add: hexDigit_def)
  have p: "pktLine ''hello'' = ''0009hello''"
    by (simp add: pktLine_def set_at_def encode_def t padStart_def replicate_small)
  from pktLine_round_trip [of "''hello''" "''0000''" "''0000''"] show ?thesis
    by (simp add: p)
qed

section \<open>The blob store and the byte tools\<close>

lemma foldl_total: "foldl (\<lambda>s c. s + length c) a chunks = a + length (concat chunks)"
  by (induction chunks arbitrary: a) auto

lemma copy_chunks_concat:
  "offset + length (concat chunks) \<le> length out \<Longrightarrow>
   copy_chunks out offset chunks =
     take offset out @ concat chunks @ drop (offset + length (concat chunks)) out"
proof (induction chunks arbitrary: out offset)
  case Nil
  then show ?case by simp
next
  case (Cons c chunks)
  have len: "length (set_at out c offset) = length out"
    using Cons.prems by (simp add: set_at_def)
  have "copy_chunks (set_at out c offset) (offset + length c) chunks =
      take (offset + length c) (set_at out c offset) @ concat chunks
        @ drop (offset + length c + length (concat chunks)) (set_at out c offset)"
    using Cons.prems by (intro Cons.IH) (simp add: len)
  also have "take (offset + length c) (set_at out c offset) = take offset out @ c"
    using Cons.prems by (simp add: set_at_def)
  also have "drop (offset + length c + length (concat chunks)) (set_at out c offset)
      = drop (offset + length c + length (concat chunks)) out"
    using Cons.prems by (simp add: set_at_def ac_simps)
  finally show ?case by (simp add: add.assoc)
qed

lemma concat_chunks_eq: "concat_chunks chunks = concat chunks"
  using copy_chunks_concat [of 0 chunks "replicate (length (concat chunks)) (CHR 0x00)"]
  by (simp add: concat_chunks_def foldl_total)

lemma find_app:
  "find P (xs @ ys) = (case find P xs of None \<Rightarrow> find P ys | Some x \<Rightarrow> Some x)"
  by (induction xs) auto

lemma R2_get_put_same:
  "R2_get (R2_put t k v st) k = Some \<lparr>key = k, uploaded = t, blob = v\<rparr>"
proof -
  have "find (\<lambda>obj. key obj = k) (filter (\<lambda>obj. key obj \<noteq> k) st) = None"
    by (simp add: find_None_iff)
  then show ?thesis by (simp add: R2_get_def R2_put_def find_app)
qed

lemma find_filter_other:
  "k' \<noteq> k \<Longrightarrow> find (\<lambda>obj. key obj = k') (filter (\<lambda>obj. key obj \<noteq> k) st) = find (\<lambda>obj. key obj = k') st"
  by (induction st) auto

lemma R2_get_put_other:
  "k' \<noteq> k \<Longrightarrow> R2_get (R2_put t k v st) k' = R2_get st k'"
  by (auto simp: R2_get_def R2_put_def find_app find_filter_other split: option.splits)

lemma set_R2_put:
  "set (R2_put t k v st) = {obj \<in> set st. key obj \<noteq> k} \<union> {\<lparr>key = k, uploaded = t, blob = v\<rparr>}"
  by (auto simp: R2_put_def)

lemma wf_R2_put: "wf_bucket st \<Longrightarrow> wf_bucket (R2_put t k v st)"
  by (auto simp: wf_bucket_def R2_put_def distinct_map_filter)

lemma process_commands_Cons:
  "process_commands now base st results (cmd # commands) =
     (if old cmd \<noteq> zeroOid \<and> old cmd \<noteq> readRef st base (ref cmd)
      then process_commands now base st
             (results @ [pktLine (encode (''ng '' @ ref cmd @ '' non-fast-forward\<newline>''))]) commands
      else process_commands now base
             (R2_put now (join [base, ref cmd]) (encode (new cmd @ ''\<newline>'')) st)
             (results @ [pktLine (encode (''ok '' @ ref cmd @ ''\<newline>''))]) commands)"
  by (auto simp: update_ref_def Let_def)

section \<open>git-receive-pack: the commands\<close>

lemma isHexDigit_ascii:
  assumes "isHexDigit c"
  shows "byte c < 128" "\<not> ws1 c"
  using assms
  by (auto simp: isHexDigit_def digitVal_def byte_def ws1_def less_eq_char_def split: if_splits)

lemma trimStart_id:
  assumes "s \<noteq> []" "byte (hd s) < 128" "\<not> ws1 (hd s)"
  shows "trimStart s = s"
  using assms by (cases s rule: trimStart.cases) (auto simp: ws2_def ws3_def)

lemma trimStartRev_id:
  assumes "s \<noteq> []" "byte (hd s) < 128" "\<not> ws1 (hd s)"
  shows "trimStartRev s = s"
  using assms by (cases s rule: trimStartRev.cases) (auto simp: ws2_def ws3_def)

lemma trimStartRev_newline:
  assumes "s \<noteq> []"
  shows "trimStartRev (CHR ''\<newline>'' # s) = trimStartRev s"
proof -
  have "ws1 (CHR ''\<newline>'')" by (simp add: ws1_def byte_def)
  with assms show ?thesis by (cases s rule: trimStartRev.cases) auto
qed

lemma trim_line:
  assumes "s \<noteq> []" "\<forall>c\<in>set s. byte c < 128 \<and> \<not> ws1 c"
  shows "trim (decode (s @ ''\<newline>'')) = s"
proof -
  have nl: "byte (CHR ''\<newline>'') < 128" by (simp add: byte_def)
  have d: "decode (s @ ''\<newline>'') = s @ ''\<newline>''"
    using assms(2) nl by (intro decode_ascii) auto
  have hd: "byte (hd s) < 128" "\<not> ws1 (hd s)" using assms by auto
  have t: "trimStart (s @ ''\<newline>'') = s @ ''\<newline>''"
    using assms(1) hd by (intro trimStart_id) auto
  have r: "rev s \<noteq> []" "byte (hd (rev s)) < 128" "\<not> ws1 (hd (rev s))"
    using assms by (auto simp: hd_rev)
  have "trimStartRev (rev (s @ ''\<newline>'')) = rev s"
    using trimStartRev_newline [OF r(1)] trimStartRev_id [OF r] by simp
  then show ?thesis by (simp add: trim_def trimEnd_def d t)
qed

lemma trim_oid:
  assumes "valid_oid n"
  shows "trim (decode (n @ ''\<newline>'')) = n"
proof -
  from assms have "n \<noteq> []" "\<forall>c\<in>set n. byte c < 128 \<and> \<not> ws1 c"
    using isHexDigit_ascii by (auto simp: valid_oid_def list_all_iff)
  then show ?thesis by (rule trim_line)
qed

lemma readRef_put:
  "readRef (R2_put now (join [base, r]) (encode (n @ ''\<newline>'')) st) base r =
     (if trim (decode (n @ ''\<newline>'')) = [] then zeroOid else trim (decode (n @ ''\<newline>'')))"
  by (simp add: readRef_def R2_get_put_same encode_def Let_def)

lemma zeroOid_valid: "valid_oid zeroOid"
  by code_simp



section \<open>git-receive-pack: the report\<close>

lemma process_commands_lines:
  "\<exists>lines. snd (process_commands now base st results commands)
       = results @ map (\<lambda>l. pktLine (encode l)) lines
     \<and> list_all2 status_line commands lines"
proof (induction commands arbitrary: st results)
  case Nil
  then show ?case by simp
next
  case (Cons cmd commands)
  show ?case
  proof (cases "old cmd \<noteq> zeroOid \<and> old cmd \<noteq> readRef st base (ref cmd)")
    case True
    let ?l = "''ng '' @ ref cmd @ '' non-fast-forward\<newline>''"
    from Cons.IH [of st "results @ [pktLine (encode ?l)]"] obtain lines where
      "snd (process_commands now base st (results @ [pktLine (encode ?l)]) commands)
         = (results @ [pktLine (encode ?l)]) @ map (\<lambda>l. pktLine (encode l)) lines"
      "list_all2 status_line commands lines" by blast
    moreover have "process_commands now base st results (cmd # commands)
         = process_commands now base st (results @ [pktLine (encode ?l)]) commands"
      unfolding process_commands_Cons by (rule if_P [OF True])
    ultimately have "snd (process_commands now base st results (cmd # commands))
         = results @ map (\<lambda>l. pktLine (encode l)) (?l # lines)
       \<and> list_all2 status_line (cmd # commands) (?l # lines)"
      by (simp add: status_line_def del: process_commands.simps)
    then show ?thesis by blast
  next
    case False
    let ?l = "''ok '' @ ref cmd @ ''\<newline>''"
    let ?st = "R2_put now (join [base, ref cmd]) (encode (new cmd @ ''\<newline>'')) st"
    from Cons.IH [of ?st "results @ [pktLine (encode ?l)]"] obtain lines where
      "snd (process_commands now base ?st (results @ [pktLine (encode ?l)]) commands)
         = (results @ [pktLine (encode ?l)]) @ map (\<lambda>l. pktLine (encode l)) lines"
      "list_all2 status_line commands lines" by blast
    moreover have "process_commands now base st results (cmd # commands)
         = process_commands now base ?st (results @ [pktLine (encode ?l)]) commands"
      unfolding process_commands_Cons by (rule if_not_P [OF False])
    ultimately have "snd (process_commands now base st results (cmd # commands))
         = results @ map (\<lambda>l. pktLine (encode l)) (?l # lines)
       \<and> list_all2 status_line (cmd # commands) (?l # lines)"
      by (simp add: status_line_def del: process_commands.simps)
    then show ?thesis by blast
  qed
qed

text \<open>Whenever the command section parses, the handler answers with status 200; the body is
  the line \<^verbatim>\<open>unpack ok\<close> and one status line for each command, in the order of the commands,
  each given to \<open>pktLine\<close> and then to \<open>sidebandPacket\<close>, and one flush.\<close>

lemma receive_pack_lines:
  assumes "parseReceiveCommands buf = Inr (commands, packStart)"
  shows "\<exists>st' lines. handleReceivePack now uuid st org repo buf =
           (st', Inr \<lparr>status = 200,
                      headers = [(''Content-Type'', ''application/x-git-receive-pack-result'')],
                      body = concat (map (\<lambda>l. sidebandPacket (pktLine (encode l)))
                                        (''unpack ok\<newline>'' # lines)) @ pktFlush\<rparr>)
         \<and> list_all2 status_line commands lines
         \<and> (\<forall>l. sidebandPacket (pktLine (encode l)) = pktLine (CHR 0x01 # pktLine l))
         \<and> pktFlush = ''0000''"
proof -
  let ?base = "join [''repos'', org, repo]"
  let ?r0 = "[pktLine (encode ''unpack ok\<newline>'')]"
  obtain st1 results where pc: "process_commands now ?base st ?r0 commands = (st1, results)"
    by (cases "process_commands now ?base st ?r0 commands") auto
  from process_commands_lines [of now ?base st ?r0 commands] pc obtain lines where
    l: "results = ?r0 @ map (\<lambda>l. pktLine (encode l)) lines" "list_all2 status_line commands lines"
    by auto
  have "map sidebandPacket results
      = map (\<lambda>l. sidebandPacket (pktLine (encode l))) (''unpack ok\<newline>'' # lines)"
    by (simp add: l(1))
  then have "snd (handleReceivePack now uuid st org repo buf) =
       Inr \<lparr>status = 200,
            headers = [(''Content-Type'', ''application/x-git-receive-pack-result'')],
            body = concat (map (\<lambda>l. sidebandPacket (pktLine (encode l)))
                             (''unpack ok\<newline>'' # lines)) @ pktFlush\<rparr>"
    using assms pc by (simp add: handleReceivePack_def Let_def concat_chunks_eq)
  with l(2) show ?thesis
    by (cases "handleReceivePack now uuid st org repo buf")
      (auto simp: sidebandPacket_def encode_def pktFlush_def)
qed

section \<open>git-receive-pack: the pack\<close>

lemma has_PACK_at:
  "i + 3 < length buf \<Longrightarrow> buf ! i = CHR 0x50 \<Longrightarrow> buf ! (i + 1) = CHR 0x41 \<Longrightarrow>
   buf ! (i + 2) = CHR 0x43 \<Longrightarrow> buf ! (i + 3) = CHR 0x4B \<Longrightarrow> has_PACK buf"
proof (induction buf arbitrary: i)
  case Nil
  then show ?case by simp
next
  case (Cons c s)
  show ?case
  proof (cases i)
    case 0
    with Cons.prems have "take 4 (c # s) = [c, s ! 0, s ! 1, s ! 2]"
      by (cases s; cases "tl s"; cases "tl (tl s)") (auto simp: numeral_3_eq_3)
    with 0 Cons.prems show ?thesis by (simp add: numeral_2_eq_2 numeral_3_eq_3)
  next
    case (Suc j)
    with Cons.prems have "has_PACK s" by (intro Cons.IH [of j]) (auto simp: add.commute)
    then show ?thesis by simp
  qed
qed

lemma findPackStart_from_none:
  "\<not> has_PACK buf \<Longrightarrow> findPackStart_from buf i = 0"
proof (induction buf i rule: findPackStart_from.induct)
  case (1 buf i)
  show ?case
  proof (cases "int i < int (length buf) - 4")
    case True
    then have "i + 3 < length buf" by simp
    with has_PACK_at [of i buf] "1.prems"
    have no: "\<not> (buf ! i = CHR 0x50 \<and> buf ! (i + 1) = CHR 0x41 \<and> buf ! (i + 2) = CHR 0x43
               \<and> buf ! (i + 3) = CHR 0x4B)" by blast
    with True "1.IH" "1.prems" have "findPackStart_from buf (i + 1) = 0" by blast
    with True no show ?thesis by (subst findPackStart_from.simps) auto
  next
    case False
    then show ?thesis by (subst findPackStart_from.simps) simp
  qed
qed

lemma sliceFrom_0: "sliceFrom buf (Some 0) = buf"
  by (simp add: sliceFrom_def slice_def relIndex_def toIndex_def Let_def)

text \<open>
  C10, as amended. When the magic \<^verbatim>\<open>PACK\<close> stands nowhere in the body, \<open>findPackStart\<close> gives 0
  and the pack is the whole body, command section included. When moreover the command
  section parses and the body is not empty, the handler stores the body, byte for byte,
  under the key made from the identifier \<^verbatim>\<open>crypto.randomUUID()\<close> gave. A body whose command
  section does not parse is not stored: the handler has thrown before.
\<close>

theorem whole_body_stored_as_pack:
  assumes "\<not> has_PACK buf"
  shows "findPackStart buf = 0
    \<and> sliceFrom buf (Some (int (findPackStart buf))) = buf
    \<and> (\<forall>commands packStart. parseReceiveCommands buf = Inr (commands, packStart) \<and> buf \<noteq> [] \<longrightarrow>
          R2_get (fst (handleReceivePack now uuid st org repo buf)) (pack_key org repo uuid)
            = Some \<lparr>key = pack_key org repo uuid, uploaded = now, blob = buf\<rparr>)"
proof -
  have f: "findPackStart buf = 0"
    using assms by (simp add: findPackStart_def findPackStart_from_none)
  have "R2_get (fst (handleReceivePack now uuid st org repo buf)) (pack_key org repo uuid)
            = Some \<lparr>key = pack_key org repo uuid, uploaded = now, blob = buf\<rparr>"
    if p: "parseReceiveCommands buf = Inr (commands, packStart)" and ne: "buf \<noteq> []"
    for commands packStart
  proof -
    from p f have ps: "packStart = 0"
      by (auto simp: parseReceiveCommands_def split: sum.splits)
    obtain st1 results where pc:
      "process_commands now (join [''repos'', org, repo]) st [pktLine (encode ''unpack ok\<newline>'')] commands
         = (st1, results)"
      by (cases "process_commands now (join [''repos'', org, repo]) st
                   [pktLine (encode ''unpack ok\<newline>'')] commands") auto
    have "fst (handleReceivePack now uuid st org repo buf)
        = R2_put now (pack_key org repo uuid) buf st1"
      using p ps pc ne by (simp add: handleReceivePack_def Let_def sliceFrom_0 pack_key_def)
    then show ?thesis by (simp add: R2_get_put_same)
  qed
  with f show ?thesis by (simp add: sliceFrom_0)
qed

theorem whole_body_stored_as_pack_witness:
  "\<not> has_PACK ''0000abc'' \<and> findPackStart ''0000abc'' = 0
   \<and> R2_get (fst (handleReceivePack 5 ''12-34'' [] ''o'' ''r'' ''0000abc''))
        ''repos/o/r/objects/pack/pack-1234.pack''
       = Some \<lparr>key = ''repos/o/r/objects/pack/pack-1234.pack'', uploaded = 5, blob = ''0000abc''\<rparr>"
proof -
  have n: "\<not> has_PACK ''0000abc''" by code_simp
  have p: "parseReceiveCommands ''0000abc'' = Inr ([], 0)" by code_simp
  have k: "pack_key ''o'' ''r'' ''12-34'' = ''repos/o/r/objects/pack/pack-1234.pack''" by code_simp
  from whole_body_stored_as_pack [OF n, of 5 "''12-34''" "[]" "''o''" "''r''"] p n
  show ?thesis by (simp add: k)
qed

text \<open>The claim as stated fails: \<^verbatim>\<open>hello\<close> holds no \<^verbatim>\<open>PACK\<close> and is not empty, and nothing is
  stored, since its first four bytes are no length.\<close>

theorem body_without_PACK_not_stored:
  "\<not> has_PACK ''hello'' \<and> ''hello'' \<noteq> []
   \<and> handleReceivePack 5 ''12-34'' [] ''o'' ''r'' ''hello'' = ([], Inl TypeError)"
  by code_simp

section \<open>git-receive-pack: the frames of the report\<close>

text \<open>A length of five hexadecimal digits: the payload, copied at offset 4, takes the place of
  the fifth digit, and the length field of the frame is the first four.\<close>

lemma toString16_65536: "toString16 65536 = ''10000''"
proof -
  have a: "toString16 (Suc 0) = ''1''" by (subst toString16.simps) (simp add: hexDigit_def)
  have b: "toString16 16 = ''10''" by (subst toString16.simps) (simp add: hexDigit_def a)
  have c: "toString16 256 = ''100''" by (subst toString16.simps) (simp add: hexDigit_def b)
  have d: "toString16 4096 = ''1000''" by (subst toString16.simps) (simp add: hexDigit_def c)
  show ?thesis by (subst toString16.simps) (simp add: hexDigit_def d)
qed

lemma toString16_65541: "toString16 65541 = ''10005''"
proof -
  have a: "toString16 (Suc 0) = ''1''" by (subst toString16.simps) (simp add: hexDigit_def)
  have b: "toString16 16 = ''10''" by (subst toString16.simps) (simp add: hexDigit_def a)
  have c: "toString16 256 = ''100''" by (subst toString16.simps) (simp add: hexDigit_def b)
  have d: "toString16 4096 = ''1000''" by (subst toString16.simps) (simp add: hexDigit_def c)
  show ?thesis by (subst toString16.simps) (simp add: hexDigit_def d)
qed

lemma pktLine_five_digits:
  assumes "toString16 (length p + 4) = h" "length h = 5"
  shows "pktLine p = take 4 h @ p"
proof -
  have l: "5 \<le> length p + 4"
  proof (rule ccontr)
    assume "\<not> 5 \<le> length p + 4"
    then have "length p + 4 < 16" by simp
    then have "toString16 (length p + 4) = [hexDigit (length p + 4)]"
      by (subst toString16.simps) simp
    with assms show False by auto
  qed
  have "padStart 4 (CHR ''0'') h = h" using assms(2) by (simp add: padStart_def)
  then show ?thesis
    using assms l by (simp add: pktLine_def Let_def encode_def set_at_def)
qed

lemma split_no_sep: "sep \<notin> set s \<Longrightarrow> split sep s = [s]"
  by (induction s) auto

lemma no_P_no_PACK: "CHR 0x50 \<notin> set buf \<Longrightarrow> \<not> has_PACK buf"
  by (induction buf) auto


lemma long_line_frames:
  assumes "length l = 65532"
  shows "pktLine l = ''1000'' @ l"
    and "sidebandPacket (pktLine l) = ''1000'' @ CHR 0x01 # ''1000'' @ l"
proof -
  have "toString16 (length l + 4) = ''10000''" using assms toString16_65536 by simp
  from pktLine_five_digits [OF this] show p: "pktLine l = ''1000'' @ l" by simp
  have "length (CHR 0x01 # ''1000'' @ l) + 4 = 65541" using assms by simp
  then have "toString16 (length (CHR 0x01 # ''1000'' @ l) + 4) = ''10005''"
    using toString16_65541 by simp
  from pktLine_five_digits [OF this] show "sidebandPacket (pktLine l) = ''1000'' @ CHR 0x01 # ''1000'' @ l"
    by (simp add: sidebandPacket_def p)
qed

text \<open>A command with a ref name of 65511 bytes, in a frame of 65519 bytes.\<close>

lemma parse_long_ref:
  assumes "length r = 65511" "set r = {CHR ''r''}"
  shows "parseReceiveCommands (''ffefa b '' @ r @ ''0000'')
       = Inr ([\<lparr>old = ''a'', new = ''b'', ref = r\<rparr>], 0)"
proof -
  define p where "p = ''a b '' @ r"
  define B where "B = ''ffefa b '' @ r @ ''0000''"
  have ne: "r \<noteq> []" using assms(1) by auto
  have lp: "length p + 4 = 65519" by (simp add: p_def assms(1))
  have h: "hex4 65519 = ''ffef''" by (simp add: hex4_def hexDigit_def)
  have pk: "pktLine p = ''ffef'' @ p" using pktLine_hex4 [of p] lp h by simp
  have B: "B = [] @ pktLine p @ ''0000''" unfolding B_def pk by (simp add: p_def)
  have lt: "length p + 4 < 65536" using lp by simp
  have fl: "frame_len B (Some 0) = Some 65519"
    using frame_of_pktLine(1) [OF lt, of "[]" "''0000''"] lp unfolding B [symmetric] by simp
  have fp: "frame_payload B (Some 0) = p"
    using frame_of_pktLine(2) [OF lt, of "[]" "''0000''"] unfolding B [symmetric] by simp
  have ascii: "\<forall>c\<in>set p. byte c < 128" by (auto simp: p_def assms(2) byte_def)
  have ts: "trimStart p = p"
    by (rule trimStart_id) (simp_all add: p_def byte_def ws1_def)
  have hr: "hd (rev r) = CHR ''r''"
  proof -
    have "hd (rev r) \<in> set (rev r)" using ne by (intro hd_in_set) simp
    then show ?thesis using assms(2) by simp
  qed
  have te: "trimStartRev (rev p) = rev p"
    using ne hr by (intro trimStartRev_id) (simp_all add: p_def byte_def ws1_def)
  have tr: "trim p = p" by (simp add: trim_def trimEnd_def ts te)
  have sp: "CHR '' '' \<notin> set r" "CHR 0x00 \<notin> set r" by (simp_all add: assms(2))
  have pc: "parse_command (decode p) = Inr \<lparr>old = ''a'', new = ''b'', ref = r\<rparr>"
    unfolding decode_ascii [OF ascii] parse_command_def tr
    by (simp add: p_def split_no_sep [OF sp(1)] split_no_sep [OF sp(2)])
  have B': "B = pktLine p @ ''0000'' @ []" unfolding B_def pk by (simp add: p_def)
  have lpk: "length (pktLine p) = 65519" using lp by (simp add: pk)
  have "slice B (Some (int (length (pktLine p)))) (Some (int (length (pktLine p)) + int (length ''0000'')))
      = ''0000''"
    unfolding B' by (rule slice_mid)
  then have sl: "slice B (Some 65519) (Some 65523) = ''0000''" by (simp add: lpk)
  have z: "parseInt16 (decode ''0000'') = Some 0" by code_simp
  have fl2: "frame_len B (Some 65519) = Some 0"
    by (simp add: frame_len_def addN_def sl z)
  have "parse_loop B (Some 65519) [\<lparr>old = ''a'', new = ''b'', ref = r\<rparr>]
      = Inr [\<lparr>old = ''a'', new = ''b'', ref = r\<rparr>]"
    by (subst parse_loop.simps) (simp add: fl2)
  then have pl: "parse_loop B (Some 0) [] = Inr [\<lparr>old = ''a'', new = ''b'', ref = r\<rparr>]"
    by (subst parse_loop.simps) (simp add: fl fp pc addN_def Let_def)
  have "CHR 0x50 \<notin> set B" by (simp add: B_def assms(2))
  then have "findPackStart B = 0"
    using no_P_no_PACK findPackStart_from_none by (simp add: findPackStart_def)
  with pl show ?thesis by (simp add: parseReceiveCommands_def B_def)
qed

lemma list_all2_setD:
  "list_all2 P xs ys \<Longrightarrow> y \<in> set ys \<Longrightarrow> \<exists>x\<in>set xs. P x y"
  by (induction rule: list_all2_induct) auto

lemma side_band_frame:
  assumes "length l \<le> 65526"
  shows "sidebandPacket (pktLine (encode l)) = hex4 (length l + 9) @ CHR 0x01 # hex4 (length l + 4) @ l"
proof -
  from assms have a: "length l + 4 < 65536" by simp
  have p: "pktLine l = hex4 (length l + 4) @ l" by (rule pktLine_hex4 [OF a])
  from assms have b: "length (CHR 0x01 # hex4 (length l + 4) @ l) + 4 < 65536"
    by (simp add: length_hex4)
  have "length (CHR 0x01 # hex4 (length l + 4) @ l) + 4 = length l + 9"
    by (simp add: length_hex4)
  with pktLine_hex4 [OF b] show ?thesis
    by (simp add: sidebandPacket_def encode_def p add.commute)
qed

lemma status_line_length:
  assumes "status_line cmd l" "length (ref cmd) \<le> 65505"
  shows "length l \<le> 65526"
  using assms by (auto simp: status_line_def)

text \<open>
  C8, as amended. Whenever the command section parses and no ref name of a command is longer
  than 65505 bytes, the handler answers with status 200 and this body: for the line
  \<^verbatim>\<open>unpack ok\<close> first, then for the status line of each command in the order of the
  commands, one side-band frame, that is, four hexadecimal digits of the length of the line
  plus 9, the channel byte 1, four hexadecimal digits of the length of the line plus 4, and the
  line; then one flush \<^verbatim>\<open>0000\<close>.
\<close>

theorem receive_pack_report:
  assumes "parseReceiveCommands buf = Inr (commands, packStart)"
    and "\<forall>cmd\<in>set commands. length (ref cmd) \<le> 65505"
  shows "\<exists>st' lines. handleReceivePack now uuid st org repo buf =
           (st', Inr \<lparr>status = 200,
                      headers = [(''Content-Type'', ''application/x-git-receive-pack-result'')],
                      body = concat (map (\<lambda>l. hex4 (length l + 9) @ CHR 0x01 # hex4 (length l + 4) @ l)
                                        (''unpack ok\<newline>'' # lines)) @ ''0000''\<rparr>)
         \<and> list_all2 status_line commands lines"
proof -
  from receive_pack_lines [OF assms(1), of now uuid st org repo] obtain st' lines where
    h: "handleReceivePack now uuid st org repo buf =
           (st', Inr \<lparr>status = 200,
                      headers = [(''Content-Type'', ''application/x-git-receive-pack-result'')],
                      body = concat (map (\<lambda>l. sidebandPacket (pktLine (encode l)))
                                        (''unpack ok\<newline>'' # lines)) @ pktFlush\<rparr>)"
    and l: "list_all2 status_line commands lines" by blast
  have "length l \<le> 65526" if "l \<in> set (''unpack ok\<newline>'' # lines)" for l
  proof (cases "l = ''unpack ok\<newline>''")
    case True
    then show ?thesis by simp
  next
    case False
    with that have "l \<in> set lines" by simp
    from list_all2_setD [OF l this] obtain cmd where "cmd \<in> set commands" "status_line cmd l"
      by blast
    with assms(2) show ?thesis using status_line_length by blast
  qed
  then have eq: "map (\<lambda>l. sidebandPacket (pktLine (encode l))) (''unpack ok\<newline>'' # lines)
      = map (\<lambda>l. hex4 (length l + 9) @ CHR 0x01 # hex4 (length l + 4) @ l) (''unpack ok\<newline>'' # lines)"
    by (intro map_cong refl side_band_frame)
  from h [unfolded eq] l show ?thesis
    unfolding pktFlush_def encode_def by blast
qed

theorem receive_pack_report_witness:
  "(\<exists>st' lines.
     handleReceivePack 0 ''u'' [] ''o'' ''r''
        ''00410000000000000000000000000000000000000000 xyz refs/heads/main\<newline>0000'' =
       (st', Inr \<lparr>status = 200,
                  headers = [(''Content-Type'', ''application/x-git-receive-pack-result'')],
                  body = concat (map (\<lambda>l. hex4 (length l + 9) @ CHR 0x01 # hex4 (length l + 4) @ l)
                                    (''unpack ok\<newline>'' # lines)) @ ''0000''\<rparr>)
     \<and> list_all2 status_line [\<lparr>old = zeroOid, new = ''xyz'', ref = ''refs/heads/main''\<rparr>] lines)
   \<and> snd (handleReceivePack 0 ''u'' [] ''o'' ''r''
        ''00410000000000000000000000000000000000000000 xyz refs/heads/main\<newline>0000'')
     = Inr \<lparr>status = 200,
            headers = [(''Content-Type'', ''application/x-git-receive-pack-result'')],
            body = ''0013'' @ [CHR 0x01] @ ''000eunpack ok\<newline>''
                   @ ''001c'' @ [CHR 0x01] @ ''0017ok refs/heads/main\<newline>''
                   @ ''0000''\<rparr>"
proof -
  have p: "parseReceiveCommands
      ''00410000000000000000000000000000000000000000 xyz refs/heads/main\<newline>0000''
    = Inr ([\<lparr>old = zeroOid, new = ''xyz'', ref = ''refs/heads/main''\<rparr>], 0)"
    by code_simp
  have b: "\<forall>cmd\<in>set [\<lparr>old = zeroOid, new = ''xyz'', ref = ''refs/heads/main''\<rparr>].
             length (ref cmd) \<le> 65505" by simp
  have e: "snd (handleReceivePack 0 ''u'' [] ''o'' ''r''
        ''00410000000000000000000000000000000000000000 xyz refs/heads/main\<newline>0000'')
     = Inr \<lparr>status = 200,
            headers = [(''Content-Type'', ''application/x-git-receive-pack-result'')],
            body = ''0013'' @ [CHR 0x01] @ ''000eunpack ok\<newline>''
                   @ ''001c'' @ [CHR 0x01] @ ''0017ok refs/heads/main\<newline>''
                   @ ''0000''\<rparr>"
    by code_simp
  from receive_pack_report [OF p b, of 0 "''u''" "[]" "''o''" "''r''"] e show ?thesis
    by (intro conjI)
qed

text \<open>The claim as stated fails. A command whose ref name has 65511 bytes is rejected with
  a status line of 65532 bytes; its two length fields would need five digits, and both frames
  go out with the length field \<^verbatim>\<open>1000\<close>, 4096, on a frame of 65541 bytes. A body whose
  command section does not parse, as \<^verbatim>\<open>0004\<close>, gets no response at all.\<close>

theorem long_ref_breaks_framing:
  "parseReceiveCommands (''ffefa b '' @ replicate 65511 (CHR ''r'') @ ''0000'')
     = Inr ([\<lparr>old = ''a'', new = ''b'', ref = replicate 65511 (CHR ''r'')\<rparr>], 0)
   \<and> snd (handleReceivePack 0 ''u'' [] ''o'' ''r'' (''ffefa b '' @ replicate 65511 (CHR ''r'') @ ''0000''))
     = Inr \<lparr>status = 200,
            headers = [(''Content-Type'', ''application/x-git-receive-pack-result'')],
            body = ''0013'' @ [CHR 0x01] @ ''000eunpack ok\<newline>''
                   @ ''1000'' @ [CHR 0x01] @ ''1000''
                   @ ''ng '' @ replicate 65511 (CHR ''r'') @ '' non-fast-forward\<newline>''
                   @ ''0000''\<rparr>
   \<and> length (''1000'' @ [CHR 0x01] @ ''1000''
               @ ''ng '' @ replicate 65511 (CHR ''r'') @ '' non-fast-forward\<newline>'') = 65541
   \<and> parseInt16 (decode ''1000'') = Some 4096
   \<and> snd (handleReceivePack 0 ''u'' [] ''o'' ''r'' ''0004'') = Inl TypeError"
proof -
  define r where "r = replicate 65511 (CHR ''r'')"
  define l where "l = ''ng '' @ r @ '' non-fast-forward\<newline>''"
  have lr: "length r = 65511" "set r = {CHR ''r''}" by (simp_all add: r_def)
  have ll: "length l = 65532" by (simp add: l_def lr)
  have p: "parseReceiveCommands (''ffefa b '' @ r @ ''0000'')
      = Inr ([\<lparr>old = ''a'', new = ''b'', ref = r\<rparr>], 0)"
    by (rule parse_long_ref [OF lr])
  have u: "sidebandPacket (pktLine ''unpack ok\<newline>'') = ''0013'' @ [CHR 0x01] @ ''000eunpack ok\<newline>''"
    by code_simp
  have rr: "readRef [] (join [''repos'', ''o'', ''r'']) r = zeroOid"
    by (simp add: readRef_def R2_get_def)
  have az: "''a'' \<noteq> zeroOid" by (simp add: zeroOid_def)
  have pcs: "process_commands 0 (join [''repos'', ''o'', ''r'']) [] [pktLine ''unpack ok\<newline>'']
        [\<lparr>old = ''a'', new = ''b'', ref = r\<rparr>]
      = ([], [pktLine ''unpack ok\<newline>'', pktLine l])"
    using rr az by (subst process_commands_Cons) (simp add: encode_def l_def)
  have sb: "concat (map sidebandPacket [pktLine ''unpack ok\<newline>'', pktLine l])
      = ''0013'' @ [CHR 0x01] @ ''000eunpack ok\<newline>'' @ ''1000'' @ [CHR 0x01] @ ''1000'' @ l"
    by (simp add: u long_line_frames(2) [OF ll])
  have h: "snd (handleReceivePack 0 ''u'' [] ''o'' ''r'' (''ffefa b '' @ r @ ''0000''))
     = Inr \<lparr>status = 200,
            headers = [(''Content-Type'', ''application/x-git-receive-pack-result'')],
            body = ''0013'' @ [CHR 0x01] @ ''000eunpack ok\<newline>''
                   @ ''1000'' @ [CHR 0x01] @ ''1000''
                   @ ''ng '' @ r @ '' non-fast-forward\<newline>''
                   @ ''0000''\<rparr>"
  proof -
    have "snd (handleReceivePack 0 ''u'' [] ''o'' ''r'' (''ffefa b '' @ r @ ''0000''))
       = Inr \<lparr>status = 200,
              headers = [(''Content-Type'', ''application/x-git-receive-pack-result'')],
              body = (''0013'' @ [CHR 0x01] @ ''000eunpack ok\<newline>'' @ ''1000'' @ [CHR 0x01] @ ''1000'' @ l)
                     @ ''0000''\<rparr>"
      unfolding handleReceivePack_def p sb [symmetric]
      by (simp add: Let_def encode_def pcs concat_chunks_eq pktFlush_def
          del: process_commands.simps)
    then show ?thesis by (simp add: l_def)
  qed
  have len: "length (''1000'' @ [CHR 0x01] @ ''1000''
               @ ''ng '' @ r @ '' non-fast-forward\<newline>'') = 65541"
    by (simp add: lr)
  have q: "parseInt16 (decode ''1000'') = Some 4096" by code_simp
  have e: "snd (handleReceivePack 0 ''u'' [] ''o'' ''r'' ''0004'') = Inl TypeError" by code_simp
  from p h len q e show ?thesis unfolding r_def by (intro conjI)
qed

section \<open>The content of ref records\<close>

lemma startsWith_append: "startsWith (b @ x) (b @ y) = startsWith x y"
  by (simp add: startsWith_def)

lemma join_base: "join [''repos'', org, repo] = ''repos/'' @ org @ ''/'' @ repo"
  by (simp add: join_def)

lemma join_two: "join [b, x] = b @ ''/'' @ x"
  by (simp add: join_def)

lemma join_four: "join [''repos'', org, repo, x] = (''repos/'' @ org @ ''/'' @ repo) @ ''/'' @ x"
  by (simp add: join_def)

lemma HEAD_not_ref: "\<not> is_ref_key org repo (join [join [''repos'', org, repo], ''HEAD''])"
proof -
  have "\<not> startsWith ''/HEAD'' ''/refs/''" by (simp add: startsWith_def)
  then show ?thesis
    unfolding is_ref_key_def join_four join_base join_two
    using startsWith_append [of "''repos/'' @ org @ ''/'' @ repo" "''/HEAD''" "''/refs/''"] by simp
qed

lemma pack_not_ref: "\<not> is_ref_key org repo (pack_key org repo uuid)"
proof -
  have "\<not> startsWith (''/objects/pack/pack-'' @ filter (\<lambda>c. c \<noteq> CHR ''-'') uuid @ ''.pack'') ''/refs/''"
    by (simp add: startsWith_def)
  then show ?thesis
    unfolding is_ref_key_def pack_key_def join_four join_base join_two
    using startsWith_append [of "''repos/'' @ org @ ''/'' @ repo"
        "''/objects/pack/pack-'' @ filter (\<lambda>c. c \<noteq> CHR ''-'') uuid @ ''.pack''" "''/refs/''"]
    by simp
qed

lemma ref_record_ok_oid: "valid_oid n \<Longrightarrow> ref_record_ok (n @ ''\<newline>'')"
  by (simp add: ref_record_ok_def valid_oid_def)

lemma refs_ok_put_record:
  "refs_ok org repo st \<Longrightarrow> ref_record_ok v \<Longrightarrow> refs_ok org repo (R2_put t k v st)"
  by (auto simp: refs_ok_def set_R2_put)

lemma refs_ok_put_other:
  "refs_ok org repo st \<Longrightarrow> \<not> is_ref_key org repo k \<Longrightarrow> refs_ok org repo (R2_put t k v st)"
  by (auto simp: refs_ok_def set_R2_put)

lemma refs_ok_process_commands:
  "refs_ok org repo st \<Longrightarrow> \<forall>cmd\<in>set commands. valid_oid (new cmd) \<Longrightarrow>
   refs_ok org repo (fst (process_commands now base st results commands))"
proof (induction commands arbitrary: st results)
  case Nil
  then show ?case by simp
next
  case (Cons cmd commands)
  from Cons.prems have v: "ref_record_ok (encode (new cmd @ ''\<newline>''))"
    by (simp add: ref_record_ok_oid encode_def)
  have "refs_ok org repo (R2_put now (join [base, ref cmd]) (encode (new cmd @ ''\<newline>'')) st)"
    using Cons.prems(1) v by (rule refs_ok_put_record)
  with Cons show ?case
    unfolding process_commands_Cons by auto
qed

lemma refs_ok_initRepo:
  assumes "refs_ok org repo st"
  shows "refs_ok org repo (initRepo now st org repo)"
proof -
  have "ref_record_ok (encode (zeroOid @ ''\<newline>''))"
    using ref_record_ok_oid [OF zeroOid_valid] by (simp add: encode_def)
  with assms HEAD_not_ref [of org repo] show ?thesis
    by (simp add: initRepo_def Let_def refs_ok_put_record refs_ok_put_other)
qed

text \<open>
  C5, as amended. \<open>initRepo\<close> keeps the invariant, and \<open>handleReceivePack\<close> keeps it when the
  new id of every command of the request is a valid object id. The handler writes the new
  id of a command as the client sent it, with a newline, and checks nothing.
\<close>

theorem ref_records_stay_valid:
  assumes "refs_ok org repo st"
  shows "refs_ok org repo (initRepo now st org repo)
    \<and> ((\<forall>commands packStart. parseReceiveCommands buf = Inr (commands, packStart) \<longrightarrow>
            (\<forall>cmd\<in>set commands. valid_oid (new cmd)))
         \<longrightarrow> refs_ok org repo (fst (handleReceivePack now uuid st org repo buf)))"
proof -
  have "refs_ok org repo (fst (handleReceivePack now uuid st org repo buf))"
    if h: "\<forall>commands packStart. parseReceiveCommands buf = Inr (commands, packStart) \<longrightarrow>
            (\<forall>cmd\<in>set commands. valid_oid (new cmd))"
  proof (cases "parseReceiveCommands buf")
    case (Inl e)
    with assms show ?thesis by (simp add: handleReceivePack_def)
  next
    case (Inr r)
    obtain commands packStart where r: "r = (commands, packStart)" by (cases r)
    let ?base = "join [''repos'', org, repo]"
    let ?r0 = "[pktLine (encode ''unpack ok\<newline>'')]"
    obtain st1 results where pc: "process_commands now ?base st ?r0 commands = (st1, results)"
      by (cases "process_commands now ?base st ?r0 commands") auto
    from h Inr r have "\<forall>cmd\<in>set commands. valid_oid (new cmd)" by blast
    from refs_ok_process_commands [OF assms this, of now ?base ?r0] pc
    have st1: "refs_ok org repo st1" by simp
    have "fst (handleReceivePack now uuid st org repo buf) = st1
        \<or> fst (handleReceivePack now uuid st org repo buf)
            = R2_put now (pack_key org repo uuid) (sliceFrom buf (Some (int packStart))) st1"
      using Inr r pc by (simp add: handleReceivePack_def Let_def pack_key_def)
    with st1 pack_not_ref [of org repo uuid] show ?thesis
      by (auto simp: refs_ok_put_other)
  qed
  with refs_ok_initRepo [OF assms] show ?thesis by blast
qed

theorem ref_records_stay_valid_witness:
  "refs_ok ''o'' ''r'' []
   \<and> refs_ok ''o'' ''r'' (initRepo 0 [] ''o'' ''r'')
   \<and> refs_ok ''o'' ''r'' (fst (handleReceivePack 0 ''u'' [] ''o'' ''r''
        ''00660000000000000000000000000000000000000000 aaaaaaaaaaaaaaaaaaaaaaaaaaaaaaaaaaaaaaaa refs/heads/main\<newline>0000''))"
proof -
  have e: "refs_ok ''o'' ''r'' []" by (simp add: refs_ok_def)
  have p: "parseReceiveCommands
      ''00660000000000000000000000000000000000000000 aaaaaaaaaaaaaaaaaaaaaaaaaaaaaaaaaaaaaaaa refs/heads/main\<newline>0000''
     = Inr ([\<lparr>old = zeroOid, new = ''aaaaaaaaaaaaaaaaaaaaaaaaaaaaaaaaaaaaaaaa'', ref = ''refs/heads/main''\<rparr>], 0)"
    by code_simp
  have v: "valid_oid ''aaaaaaaaaaaaaaaaaaaaaaaaaaaaaaaaaaaaaaaa''" by code_simp
  from ref_records_stay_valid [OF e, of 0
      "''00660000000000000000000000000000000000000000 aaaaaaaaaaaaaaaaaaaaaaaaaaaaaaaaaaaaaaaa refs/heads/main\<newline>0000''"
      "''u''"] e
  show ?thesis by (simp add: p v)
qed

text \<open>The claim as stated fails: a push of the new id \<^verbatim>\<open>xyz\<close> is accepted, and the record of
  \<^verbatim>\<open>refs/heads/main\<close> then holds \<^verbatim>\<open>xyz\<close> and a newline.\<close>

theorem invalid_id_stored_in_ref:
  "refs_ok ''o'' ''r'' []
   \<and> R2_get (fst (handleReceivePack 0 ''u'' [] ''o'' ''r''
        ''00410000000000000000000000000000000000000000 xyz refs/heads/main\<newline>0000''))
        ''repos/o/r/refs/heads/main''
      = Some \<lparr>key = ''repos/o/r/refs/heads/main'', uploaded = 0, blob = ''xyz\<newline>''\<rparr>
   \<and> \<not> ref_record_ok ''xyz\<newline>''
   \<and> \<not> refs_ok ''o'' ''r'' (fst (handleReceivePack 0 ''u'' [] ''o'' ''r''
        ''00410000000000000000000000000000000000000000 xyz refs/heads/main\<newline>0000''))"
  by code_simp

section \<open>git-receive-pack: malformed command sections\<close>

lemma arrives_parse_loop:
  "arrives buf i commands \<Longrightarrow> parse_loop buf (Some 0) [] = parse_loop buf i commands"
proof (induction rule: arrives.induct)
  case start
  show ?case by simp
next
  case (step i commands cmd)
  have "parse_loop buf i commands = parse_loop buf (addN i (frame_len buf i)) (commands @ [cmd])"
    using step.hyps(2,3) by (subst parse_loop.simps) (simp add: Let_def)
  with step.IH show ?case by simp
qed

lemma NaN_throws:
  assumes "frame_len buf i = None"
  shows "parse_loop buf i commands = Inl TypeError"
  using assms frame_len_NaN_throws [OF assms] by (subst parse_loop.simps) (simp add: Let_def)

lemma frame_len_past_end:
  assumes "int (length buf) \<le> j"
  shows "frame_len buf (Some j) = None"
proof -
  have "slice buf (Some j) (Some (j + 4)) = []"
    using assms by (simp add: slice_def relIndex_def toIndex_def Let_def)
  then show ?thesis by (simp add: frame_len_def addN_def decode_Nil parseInt16_Nil)
qed

lemma truncated_throws:
  assumes "frame_len buf (Some j) = Some len" "0 \<le> j" "int (length buf) < j + len"
  shows "parse_loop buf (Some j) commands = Inl TypeError"
proof -
  from frame_len_Some_offset [OF assms(1)] have "slice buf (Some j) (Some (j + 4)) \<noteq> []" by simp
  from slice_nonempty [OF this] assms(2) have "j < int (length buf)"
    by (auto simp: relIndex_def toIndex_def min_def split: if_splits)
  with assms(3) have len: "len \<noteq> 0" by auto
  show ?thesis
  proof (cases "parse_command (decode (frame_payload buf (Some j)))")
    case (Inl e)
    with assms(1) len show ?thesis
      by (subst parse_loop.simps) (cases e, simp add: Let_def)
  next
    case (Inr cmd)
    have "frame_len buf (Some (j + len)) = None"
      using assms(3) by (intro frame_len_past_end) simp
    then have "parse_loop buf (Some (j + len)) (commands @ [cmd]) = Inl TypeError"
      by (rule NaN_throws)
    with Inr assms(1) len show ?thesis
      by (subst parse_loop.simps) (simp add: Let_def addN_def)
  qed
qed

lemma malformed_throws:
  assumes "malformed_at buf i"
  shows "parse_loop buf i commands = Inl TypeError"
proof (cases "frame_len buf i")
  case None
  then show ?thesis by (rule NaN_throws)
next
  case (Some len)
  with assms obtain j where "i = Some j" "0 \<le> j" "int (length buf) < j + len"
    by (auto simp: malformed_at_def split: option.splits)
  with Some show ?thesis using truncated_throws by simp
qed

text \<open>
  C9, as amended. When the parser arrives at a frame whose length field reads as \<^verbatim>\<open>NaN\<close>
  (no hexadecimal digit after white space, a sign and \<^verbatim>\<open>0x\<close>), or whose declared length
  runs past the end of the body, \<open>parseReceiveCommands\<close> throws, whatever commands it had read;
  the handler gives no response and has written nothing.
\<close>

theorem malformed_frame_aborts:
  assumes "arrives buf i commands" "malformed_at buf i"
  shows "parseReceiveCommands buf = Inl TypeError
    \<and> handleReceivePack now uuid st org repo buf = (st, Inl TypeError)"
proof -
  have "parse_loop buf (Some 0) [] = Inl TypeError"
    using arrives_parse_loop [OF assms(1)] malformed_throws [OF assms(2)] by simp
  then have "parseReceiveCommands buf = Inl TypeError"
    by (simp add: parseReceiveCommands_def)
  then show ?thesis by (simp add: handleReceivePack_def)
qed

theorem malformed_frame_aborts_witness:
  "arrives ''0009a b c0010abc'' (Some 9) [\<lparr>old = ''a'', new = ''b'', ref = ''c''\<rparr>]
   \<and> malformed_at ''0009a b c0010abc'' (Some 9)
   \<and> handleReceivePack 0 ''u'' [] ''o'' ''r'' ''0009a b c0010abc'' = ([], Inl TypeError)
   \<and> arrives ''zzzz'' (Some 0) []
   \<and> malformed_at ''zzzz'' (Some 0)
   \<and> handleReceivePack 0 ''u'' [] ''o'' ''r'' ''zzzz'' = ([], Inl TypeError)"
proof -
  have l: "frame_len ''0009a b c0010abc'' (Some 0) = Some 9" by code_simp
  have c: "parse_command (decode (frame_payload ''0009a b c0010abc'' (Some 0)))
      = Inr \<lparr>old = ''a'', new = ''b'', ref = ''c''\<rparr>" by code_simp
  have "arrives ''0009a b c0010abc'' (addN (Some 0) (frame_len ''0009a b c0010abc'' (Some 0)))
      ([] @ [\<lparr>old = ''a'', new = ''b'', ref = ''c''\<rparr>])"
    using l c by (intro arrives.step arrives.start) simp_all
  then have a: "arrives ''0009a b c0010abc'' (Some 9) [\<lparr>old = ''a'', new = ''b'', ref = ''c''\<rparr>]"
    by (simp add: l addN_def)
  have m: "malformed_at ''0009a b c0010abc'' (Some 9)" by code_simp
  have m': "malformed_at ''zzzz'' (Some 0)" by code_simp
  from malformed_frame_aborts [OF a m, of 0 "''u''" "[]" "''o''" "''r''"]
    malformed_frame_aborts [OF arrives.start m', of 0 "''u''" "[]" "''o''" "''r''"]
    a m m' arrives.start [of "''zzzz''"]
  show ?thesis by simp
qed

text \<open>The claim as stated fails: the length field \<^verbatim>\<open>00zz\<close> is not four hexadecimal digits,
  yet \<^verbatim>\<open>parseInt\<close> reads it as 0, a flush, and the handler answers with status 200 (and
  stores the four bytes as a pack).\<close>

theorem garbled_length_accepted:
  "\<not> list_all isHexDigit (take 4 ''00zz'')
   \<and> handleReceivePack 0 ''u'' [] ''o'' ''r'' ''00zz'' =
       ([\<lparr>key = ''repos/o/r/objects/pack/pack-u.pack'', uploaded = 0, blob = ''00zz''\<rparr>],
        Inr \<lparr>status = 200,
             headers = [(''Content-Type'', ''application/x-git-receive-pack-result'')],
             body = ''0013'' @ [CHR 0x01] @ ''000eunpack ok\<newline>0000''\<rparr>)"
  by code_simp

section \<open>info/refs: a repository that does not exist, an empty listing\<close>

lemma startsWith_shorter: "startsWith k (b @ x) \<Longrightarrow> startsWith k b"
proof -
  assume "startsWith k (b @ x)"
  then have "take (length b + length x) k = b @ x" by (simp add: startsWith_def)
  then have "take (length b) (take (length b + length x) k) = take (length b) (b @ x)" by simp
  then show ?thesis by (simp add: startsWith_def min_def)
qed

lemma not_exists_no_key:
  assumes "\<not> repoExists st org repo"
  shows "\<forall>obj\<in>set st. \<not> startsWith (key obj) (''repos/'' @ org @ ''/'' @ repo)"
proof -
  let ?xs = "filter (\<lambda>obj. startsWith (key obj) (''repos/'' @ org @ ''/'' @ repo)) st"
  from assms have "take 1 (sort_key key ?xs) = []"
    by (simp add: repoExists_def R2_list_def join_base Let_def)
  then have "sort_key key ?xs = []" by (cases "sort_key key ?xs") auto
  then have "length ?xs = 0" using length_sort [of key ?xs] by simp
  then have "?xs = []" by simp
  then show ?thesis by (simp add: filter_empty_conv)
qed

lemma zeroOid_ne: "zeroOid \<noteq> []"
  by (simp add: zeroOid_def)

lemma join_four': "join [''repos'', org, repo, x] = join [''repos'', org, repo] @ ''/'' @ x"
  by (simp add: join_def)

lemma filter_put_prefix:
  assumes "\<forall>obj\<in>set st. \<not> startsWith (key obj) P"
  shows "filter (\<lambda>obj. startsWith (key obj) P) (R2_put t k v st)
       = (if startsWith k P then [\<lparr>key = k, uploaded = t, blob = v\<rparr>] else [])"
proof -
  have "filter (\<lambda>obj. startsWith (key obj) P) (filter (\<lambda>obj. key obj \<noteq> k) st) = []"
    using assms by (simp add: filter_empty_conv)
  then show ?thesis by (simp add: R2_put_def)
qed

lemma listRefs_after_init:
  assumes "\<not> repoExists st org repo"
  shows "listRefs (initRepo now st org repo) org repo = Inr [(''refs/heads/main'', zeroOid)]"
proof -
  define b where "b = join [''repos'', org, repo]"
  define P where "P = b @ ''/refs/heads/''"
  define st1 where "st1 = R2_put now (b @ ''/HEAD'') ''ref: refs/heads/main\<newline>'' st"
  define main where "main = \<lparr>key = b @ ''/refs/heads/main'', uploaded = now, blob = zeroOid @ ''\<newline>''\<rparr>"
  have st': "initRepo now st org repo = R2_put now (b @ ''/refs/heads/main'') (zeroOid @ ''\<newline>'') st1"
    by (simp add: initRepo_def Let_def join_two encode_def b_def st1_def)
  have "\<forall>obj\<in>set st. \<not> startsWith (key obj) b"
    using not_exists_no_key [OF assms] by (simp add: b_def join_base)
  then have none: "\<forall>obj\<in>set st. \<not> startsWith (key obj) P"
    unfolding P_def using startsWith_shorter by blast
  have h: "\<not> startsWith (b @ ''/HEAD'') P"
    unfolding P_def startsWith_append by (simp add: startsWith_def)
  have m: "startsWith (b @ ''/refs/heads/main'') P"
    unfolding P_def startsWith_append by (simp add: startsWith_def)
  have "filter (\<lambda>obj. startsWith (key obj) P) st1 = []"
    unfolding st1_def using filter_put_prefix [OF none] h by simp
  then have none1: "\<forall>obj\<in>set st1. \<not> startsWith (key obj) P"
    by (simp add: filter_empty_conv)
  have "filter (\<lambda>obj. startsWith (key obj) P) (initRepo now st org repo) = [main]"
    unfolding st' main_def using filter_put_prefix [OF none1] m by simp
  then have list: "R2_list (initRepo now st org repo) P None = [main]"
    by (simp add: R2_list_def)
  have get: "R2_get (initRepo now st org repo) (key main) = Some main"
    unfolding st' main_def by (simp add: R2_get_put_same)
  have name: "drop (length P) (key main) = ''main''"
    by (simp add: P_def main_def)
  have sha: "trim (decode (blob main)) = zeroOid"
    using trim_oid [OF zeroOid_valid] by (simp add: main_def)
  have "listRefs_loop (initRepo now st org repo) P [main] [] = Inr [(''refs/heads/main'', zeroOid)]"
    using get name sha zeroOid_ne by simp
  with list show ?thesis
    by (simp add: listRefs_def join_four' Let_def P_def b_def)
qed

text \<open>When \<open>repoExists\<close> is false, that is, when no key of the bucket starts with
  \<^verbatim>\<open>repos/<org>/<repo>\<close>: a request for \<^verbatim>\<open>git-upload-pack\<close> is answered with status 404 and
  the bucket is left as it is; a request for \<^verbatim>\<open>git-receive-pack\<close> runs \<open>initRepo\<close>, which
  writes \<^verbatim>\<open>HEAD\<close> as the symbolic ref to \<^verbatim>\<open>refs/heads/main\<close> and \<^verbatim>\<open>refs/heads/main\<close> as the
  zero id and nothing else, and then answers with the advertisement of that one ref.\<close>

lemma info_refs_no_key_with_prefix:
  assumes "\<not> repoExists st org repo"
  shows "handleInfoRefs now st org repo ''git-upload-pack''
       = Inr (st, \<lparr>status = 404, headers = [], body = ''Repository not found''\<rparr>)
   \<and> handleInfoRefs now st org repo ''git-receive-pack''
       = Inr (initRepo now st org repo,
              \<lparr>status = 200,
               headers = [(''Content-Type'', ''application/x-git-receive-pack-advertisement'')],
               body = pktLine ''# service=git-receive-pack\<newline>'' @ ''0000''
                      @ pktLine (zeroOid @ '' refs/heads/main'' @ [CHR 0x00]
                                 @ capabilities ''git-receive-pack'' @ ''\<newline>'')
                      @ ''0000''\<rparr>)
   \<and> R2_get (initRepo now st org repo) (join [join [''repos'', org, repo], ''HEAD''])
       = Some \<lparr>key = join [join [''repos'', org, repo], ''HEAD''], uploaded = now,
                blob = ''ref: refs/heads/main\<newline>''\<rparr>
   \<and> R2_get (initRepo now st org repo) (join [join [''repos'', org, repo], ''refs/heads/main''])
       = Some \<lparr>key = join [join [''repos'', org, repo], ''refs/heads/main''], uploaded = now,
                blob = zeroOid @ ''\<newline>''\<rparr>
   \<and> (\<forall>k. k \<noteq> join [join [''repos'', org, repo], ''HEAD'']
          \<and> k \<noteq> join [join [''repos'', org, repo], ''refs/heads/main'']
          \<longrightarrow> R2_get (initRepo now st org repo) k = R2_get st k)"
proof -
  have up: "handleInfoRefs now st org repo ''git-upload-pack''
       = Inr (st, \<lparr>status = 404, headers = [], body = ''Repository not found''\<rparr>)"
    using assms by (simp add: handleInfoRefs_def Let_def encode_def)
  have rp: "handleInfoRefs now st org repo ''git-receive-pack''
       = Inr (initRepo now st org repo,
              \<lparr>status = 200,
               headers = [(''Content-Type'', ''application/x-git-receive-pack-advertisement'')],
               body = pktLine ''# service=git-receive-pack\<newline>'' @ ''0000''
                      @ pktLine (zeroOid @ '' refs/heads/main'' @ [CHR 0x00]
                                 @ capabilities ''git-receive-pack'' @ ''\<newline>'')
                      @ ''0000''\<rparr>)"
    using assms zeroOid_ne
    by (simp add: handleInfoRefs_def Let_def listRefs_after_init concat_chunks_eq encode_def
        pktFlush_def)
  have ne: "join [join [''repos'', org, repo], ''HEAD'']
      \<noteq> join [join [''repos'', org, repo], ''refs/heads/main'']"
    by (simp add: join_two)
  have g1: "R2_get (initRepo now st org repo) (join [join [''repos'', org, repo], ''HEAD''])
       = Some \<lparr>key = join [join [''repos'', org, repo], ''HEAD''], uploaded = now,
                blob = ''ref: refs/heads/main\<newline>''\<rparr>"
    using ne by (simp add: initRepo_def Let_def R2_get_put_other R2_get_put_same encode_def)
  have g2: "R2_get (initRepo now st org repo) (join [join [''repos'', org, repo], ''refs/heads/main''])
       = Some \<lparr>key = join [join [''repos'', org, repo], ''refs/heads/main''], uploaded = now,
                blob = zeroOid @ ''\<newline>''\<rparr>"
    by (simp add: initRepo_def Let_def R2_get_put_same encode_def)
  have g3: "R2_get (initRepo now st org repo) k = R2_get st k"
    if "k \<noteq> join [join [''repos'', org, repo], ''HEAD'']"
       "k \<noteq> join [join [''repos'', org, repo], ''refs/heads/main'']" for k
    using that by (simp add: initRepo_def Let_def R2_get_put_other)
  from up rp g1 g2 g3 show ?thesis by blast
qed

lemma info_refs_on_empty_bucket:
  "\<not> repoExists [] ''o'' ''r''
   \<and> handleInfoRefs 3 [] ''o'' ''r'' ''git-upload-pack''
       = Inr ([], \<lparr>status = 404, headers = [], body = ''Repository not found''\<rparr>)
   \<and> fst (projr (handleInfoRefs 3 [] ''o'' ''r'' ''git-receive-pack''))
       = [\<lparr>key = ''repos/o/r/HEAD'', uploaded = 3, blob = ''ref: refs/heads/main\<newline>''\<rparr>,
          \<lparr>key = ''repos/o/r/refs/heads/main'', uploaded = 3, blob = zeroOid @ ''\<newline>''\<rparr>]"
proof -
  have n: "\<not> repoExists [] ''o'' ''r''" by code_simp
  have i: "initRepo 3 [] ''o'' ''r''
       = [\<lparr>key = ''repos/o/r/HEAD'', uploaded = 3, blob = ''ref: refs/heads/main\<newline>''\<rparr>,
          \<lparr>key = ''repos/o/r/refs/heads/main'', uploaded = 3, blob = zeroOid @ ''\<newline>''\<rparr>]"
    by code_simp
  from info_refs_no_key_with_prefix [OF n, of 3] n show ?thesis
    by (simp add: i)
qed

text \<open>
  C7. The claim is about a repository that does not exist: none of its keys, which all start
  with \<^verbatim>\<open>repos/<org>/<repo>/\<close>, is in the bucket. \<open>repoExists\<close> lists the prefix
  \<^verbatim>\<open>repos/<org>/<repo>\<close>, without the closing slash, so an object of the repository
  \<^verbatim>\<open>r2\<close> makes the repository \<^verbatim>\<open>r\<close> exist. After the first advertisement for a push to
  \<^verbatim>\<open>o/r2\<close> the bucket holds no object of \<^verbatim>\<open>o/r\<close>; a request for \<^verbatim>\<open>git-upload-pack\<close> on
  \<^verbatim>\<open>o/r\<close> is then answered with status 200, not 404, and a request for \<^verbatim>\<open>git-receive-pack\<close>
  writes neither \<^verbatim>\<open>HEAD\<close> nor \<^verbatim>\<open>refs/heads/main\<close> of \<^verbatim>\<open>o/r\<close>.
\<close>

theorem info_refs_sibling_repository:
  "fst (projr (handleInfoRefs 3 [] ''o'' ''r2'' ''git-receive-pack''))
     = [\<lparr>key = ''repos/o/r2/HEAD'', uploaded = 3, blob = ''ref: refs/heads/main\<newline>''\<rparr>,
        \<lparr>key = ''repos/o/r2/refs/heads/main'', uploaded = 3, blob = zeroOid @ ''\<newline>''\<rparr>]
   \<and> filter (\<lambda>obj. startsWith (key obj) ''repos/o/r/'')
        [\<lparr>key = ''repos/o/r2/HEAD'', uploaded = 3, blob = ''ref: refs/heads/main\<newline>''\<rparr>,
         \<lparr>key = ''repos/o/r2/refs/heads/main'', uploaded = 3, blob = zeroOid @ ''\<newline>''\<rparr>] = []
   \<and> repoExists
        [\<lparr>key = ''repos/o/r2/HEAD'', uploaded = 3, blob = ''ref: refs/heads/main\<newline>''\<rparr>,
         \<lparr>key = ''repos/o/r2/refs/heads/main'', uploaded = 3, blob = zeroOid @ ''\<newline>''\<rparr>]
        ''o'' ''r''
   \<and> handleInfoRefs 9
        [\<lparr>key = ''repos/o/r2/HEAD'', uploaded = 3, blob = ''ref: refs/heads/main\<newline>''\<rparr>,
         \<lparr>key = ''repos/o/r2/refs/heads/main'', uploaded = 3, blob = zeroOid @ ''\<newline>''\<rparr>]
        ''o'' ''r'' ''git-upload-pack''
     = Inr ([\<lparr>key = ''repos/o/r2/HEAD'', uploaded = 3, blob = ''ref: refs/heads/main\<newline>''\<rparr>,
             \<lparr>key = ''repos/o/r2/refs/heads/main'', uploaded = 3, blob = zeroOid @ ''\<newline>''\<rparr>],
            \<lparr>status = 200,
             headers = [(''Content-Type'', ''application/x-git-upload-pack-advertisement'')],
             body = ''001e# service=git-upload-pack\<newline>'' @ ''0000'' @ ''0000''\<rparr>)
   \<and> handleInfoRefs 9
        [\<lparr>key = ''repos/o/r2/HEAD'', uploaded = 3, blob = ''ref: refs/heads/main\<newline>''\<rparr>,
         \<lparr>key = ''repos/o/r2/refs/heads/main'', uploaded = 3, blob = zeroOid @ ''\<newline>''\<rparr>]
        ''o'' ''r'' ''git-receive-pack''
     = Inr ([\<lparr>key = ''repos/o/r2/HEAD'', uploaded = 3, blob = ''ref: refs/heads/main\<newline>''\<rparr>,
             \<lparr>key = ''repos/o/r2/refs/heads/main'', uploaded = 3, blob = zeroOid @ ''\<newline>''\<rparr>],
            \<lparr>status = 200,
             headers = [(''Content-Type'', ''application/x-git-receive-pack-advertisement'')],
             body = ''001f# service=git-receive-pack\<newline>'' @ ''0000'' @ ''0000''\<rparr>)"
  by code_simp

text \<open>On a repository that exists and lists no ref, the loop over the refs does not run: the
  answer is the service line and two flushes.\<close>

lemma info_refs_empty_listing:
  assumes "repoExists st org repo" "listRefs st org repo = Inr []"
  shows "handleInfoRefs now st org repo service
    = Inr (st, \<lparr>status = 200,
                 headers = [(''Content-Type'', ''application/x-'' @ service @ ''-advertisement'')],
                 body = pktLine (''# service='' @ service @ ''\<newline>'') @ ''0000'' @ ''0000''\<rparr>)"
  using assms by (simp add: handleInfoRefs_def Let_def concat_chunks_eq encode_def pktFlush_def)

text \<open>
  C4. The claim asks for a capability line with the zero id when the listing is empty. The
  code writes the capabilities, and the zero id in place of an empty id, only inside the loop
  over the listed refs, and \<open>listRefs\<close> never lists an empty id. A push of a pack with no
  command to a repository that does not exist leaves a repository with a pack and no ref;
  its advertisement carries no capability line.
\<close>

theorem info_refs_no_capability_line:
  "handleReceivePack 7 ''12-34'' [] ''o'' ''r.git'' ''0000PACKabcde''
     = ([\<lparr>key = ''repos/o/r.git/objects/pack/pack-1234.pack'', uploaded = 7, blob = ''PACKabcde''\<rparr>],
        Inr \<lparr>status = 200,
             headers = [(''Content-Type'', ''application/x-git-receive-pack-result'')],
             body = ''0013'' @ [CHR 0x01] @ ''000eunpack ok\<newline>0000''\<rparr>)
   \<and> repoExists [\<lparr>key = ''repos/o/r.git/objects/pack/pack-1234.pack'', uploaded = 7, blob = ''PACKabcde''\<rparr>]
        ''o'' ''r.git''
   \<and> listRefs [\<lparr>key = ''repos/o/r.git/objects/pack/pack-1234.pack'', uploaded = 7, blob = ''PACKabcde''\<rparr>]
        ''o'' ''r.git'' = Inr []
   \<and> handleInfoRefs 9
        [\<lparr>key = ''repos/o/r.git/objects/pack/pack-1234.pack'', uploaded = 7, blob = ''PACKabcde''\<rparr>]
        ''o'' ''r.git'' ''git-upload-pack''
     = Inr ([\<lparr>key = ''repos/o/r.git/objects/pack/pack-1234.pack'', uploaded = 7, blob = ''PACKabcde''\<rparr>],
            \<lparr>status = 200,
             headers = [(''Content-Type'', ''application/x-git-upload-pack-advertisement'')],
             body = ''001e# service=git-upload-pack\<newline>'' @ ''0000'' @ ''0000''\<rparr>)"
  by code_simp

section \<open>git-upload-pack: the latest pack, in frames\<close>

lemma slice_part:
  "i < length pd \<Longrightarrow>
   slice pd (Some (int i)) (Some (int (i + MAX_pkt))) = take MAX_pkt (drop i pd)"
  by (auto simp: slice_def relIndex_def toIndex_def Let_def min_def)

lemma side_band_array:
  "set_at (set_at (replicate (length part + 1) (CHR 0x00)) [CHR 0x01] 0) part 1 = CHR 0x01 # part"
  by (simp add: set_at_def)

lemma upload_chunks_parts:
  "\<exists>parts. upload_chunks pd i acc = acc @ map (\<lambda>c. pktLine (CHR 0x01 # c)) parts
     \<and> concat parts = drop i pd
     \<and> (\<forall>c\<in>set parts. c \<noteq> [] \<and> length c \<le> MAX_pkt)"
proof (induction pd i acc rule: upload_chunks.induct)
  case (1 pd i acc)
  show ?case
  proof (cases "i < length pd")
    case False
    then have "upload_chunks pd i acc = acc @ map (\<lambda>c. pktLine (CHR 0x01 # c)) []
       \<and> concat [] = drop i pd \<and> (\<forall>c\<in>set ([] :: bytes list). c \<noteq> [] \<and> length c \<le> MAX_pkt)"
      by (subst upload_chunks.simps) simp
    then show ?thesis by blast
  next
    case True
    define part where "part = take MAX_pkt (drop i pd)"
    have sl: "slice pd (Some (int i)) (Some (int (i + MAX_pkt))) = part"
      unfolding part_def by (rule slice_part [OF True])
    have step: "upload_chunks pd i acc = upload_chunks pd (i + MAX_pkt) (acc @ [pktLine (CHR 0x01 # part)])"
      using True sl [simplified] side_band_array [of part]
      by (subst upload_chunks.simps) (simp add: Let_def)
    from "1.IH" [OF True refl refl, unfolded sl side_band_array]
    obtain parts where p:
      "upload_chunks pd (i + MAX_pkt) (acc @ [pktLine (CHR 0x01 # part)])
         = (acc @ [pktLine (CHR 0x01 # part)]) @ map (\<lambda>c. pktLine (CHR 0x01 # c)) parts"
      "concat parts = drop (i + MAX_pkt) pd"
      "\<forall>c\<in>set parts. c \<noteq> [] \<and> length c \<le> MAX_pkt" by blast
    have ne: "part \<noteq> []" "length part \<le> MAX_pkt"
      using True by (simp_all add: part_def MAX_pkt_def)
    have "part @ drop (i + MAX_pkt) pd = drop i pd"
      unfolding part_def
      using append_take_drop_id [of MAX_pkt "drop i pd"] by (simp add: add.commute)
    with p ne step have "upload_chunks pd i acc = acc @ map (\<lambda>c. pktLine (CHR 0x01 # c)) (part # parts)
       \<and> concat (part # parts) = drop i pd
       \<and> (\<forall>c\<in>set (part # parts). c \<noteq> [] \<and> length c \<le> MAX_pkt)"
      by simp
    then show ?thesis by blast
  qed
qed

lemma hd_sort_key_least:
  assumes "xs \<noteq> []"
  shows "hd (sort_key f xs) \<in> set xs \<and> (\<forall>x\<in>set xs. f (hd (sort_key f xs)) \<le> f x)"
proof -
  obtain y ys where ys: "sort_key f xs = y # ys"
    using assms length_sort [of f xs] by (cases "sort_key f xs") auto
  have "set (y # ys) = set xs" using set_sort [of f xs] ys by simp
  moreover have "sorted (map f (y # ys))" using sorted_sort_key [of f xs] ys by simp
  ultimately show ?thesis using ys by auto
qed

lemma find_distinct_key:
  "distinct (map key st) \<Longrightarrow> x \<in> set st \<Longrightarrow> find (\<lambda>obj. key obj = key x) st = Some x"
  by (induction st) (auto simp: image_iff)

text \<open>The handlers keep one object for a key.\<close>

lemma wf_bucket_initRepo: "wf_bucket st \<Longrightarrow> wf_bucket (initRepo now st org repo)"
  by (simp add: initRepo_def Let_def wf_R2_put)

lemma wf_bucket_process_commands:
  "wf_bucket st \<Longrightarrow> wf_bucket (fst (process_commands now base st results commands))"
proof (induction commands arbitrary: st results)
  case Nil
  then show ?case by simp
next
  case (Cons cmd commands)
  then show ?case
    unfolding process_commands_Cons by (auto simp: wf_R2_put)
qed

lemma wf_bucket_handleReceivePack:
  assumes "wf_bucket st"
  shows "wf_bucket (fst (handleReceivePack now uuid st org repo buf))"
proof (cases "parseReceiveCommands buf")
  case (Inl e)
  with assms show ?thesis by (simp add: handleReceivePack_def)
next
  case (Inr r)
  obtain commands packStart where r: "r = (commands, packStart)" by (cases r)
  obtain st1 results where pc:
    "process_commands now (join [''repos'', org, repo]) st [pktLine (encode ''unpack ok\<newline>'')] commands
       = (st1, results)"
    by (cases "process_commands now (join [''repos'', org, repo]) st
                 [pktLine (encode ''unpack ok\<newline>'')] commands") auto
  from wf_bucket_process_commands [OF assms, of now "join [''repos'', org, repo]"
      "[pktLine (encode ''unpack ok\<newline>'')]" commands] pc
  have "wf_bucket st1" by simp
  with Inr r pc show ?thesis
    by (simp add: handleReceivePack_def Let_def wf_R2_put)
qed

text \<open>
  C6. In a bucket that holds one object for a key: when the repository has no pack, the
  answer is one flush with status 200. Otherwise some pack of the repository whose time of
  upload is the greatest is served: its bytes are cut into parts of at most 65500 bytes, none
  empty, whose concatenation is the pack; each part goes out as one frame, four hexadecimal
  digits of the length, the channel byte 1 and the part; one flush ends the answer.
\<close>

theorem upload_pack_serves_latest:
  assumes "wf_bucket st"
  shows "(packs_of st org repo = [] \<longrightarrow>
            handleUploadPack st org repo
              = Inr \<lparr>status = 200,
                     headers = [(''Content-Type'', ''application/x-git-upload-pack-result'')],
                     body = ''0000''\<rparr>)
    \<and> (packs_of st org repo \<noteq> [] \<longrightarrow>
         (\<exists>latest parts.
            latest \<in> set (packs_of st org repo)
            \<and> (\<forall>obj\<in>set (packs_of st org repo). uploaded obj \<le> uploaded latest)
            \<and> concat parts = blob latest
            \<and> (\<forall>c\<in>set parts. c \<noteq> [] \<and> length c \<le> 65500
                   \<and> pktLine (CHR 0x01 # c)
                       = padStart 4 (CHR ''0'') (toString16 (length c + 5)) @ CHR 0x01 # c)
            \<and> handleUploadPack st org repo
                = Inr \<lparr>status = 200,
                       headers = [(''Content-Type'', ''application/x-git-upload-pack-result'')],
                       body = concat (map (\<lambda>c. pktLine (CHR 0x01 # c)) parts) @ ''0000''\<rparr>))"
proof -
  define P where "P = join [''repos'', org, repo, ''objects/pack/'']"
  define list where "list = R2_list st P None"
  have list: "list = sort_key key (packs_of st org repo)"
    by (simp add: list_def R2_list_def packs_of_def P_def)
  have empty: "handleUploadPack st org repo
              = Inr \<lparr>status = 200,
                     headers = [(''Content-Type'', ''application/x-git-upload-pack-result'')],
                     body = ''0000''\<rparr>" if "packs_of st org repo = []"
    using that list
    by (simp add: handleUploadPack_def Let_def list_def P_def pktFlush_def encode_def)
  have full: "\<exists>latest parts.
            latest \<in> set (packs_of st org repo)
            \<and> (\<forall>obj\<in>set (packs_of st org repo). uploaded obj \<le> uploaded latest)
            \<and> concat parts = blob latest
            \<and> (\<forall>c\<in>set parts. c \<noteq> [] \<and> length c \<le> 65500
                   \<and> pktLine (CHR 0x01 # c)
                       = padStart 4 (CHR ''0'') (toString16 (length c + 5)) @ CHR 0x01 # c)
            \<and> handleUploadPack st org repo
                = Inr \<lparr>status = 200,
                       headers = [(''Content-Type'', ''application/x-git-upload-pack-result'')],
                       body = concat (map (\<lambda>c. pktLine (CHR 0x01 # c)) parts) @ ''0000''\<rparr>"
    if ne: "packs_of st org repo \<noteq> []"
  proof -
    define latest where "latest = hd (sort_key (\<lambda>obj. - int (uploaded obj)) list)"
    have "length list = length (packs_of st org repo)" by (simp add: list)
    with ne have lne: "list \<noteq> []" by auto
    have sl: "set list = set (packs_of st org repo)" by (simp add: list)
    from hd_sort_key_least [OF lne, of "\<lambda>obj. - int (uploaded obj)"]
    have l1: "latest \<in> set (packs_of st org repo)"
      and l2: "\<forall>obj\<in>set (packs_of st org repo). uploaded obj \<le> uploaded latest"
      by (auto simp: latest_def sl)
    from l1 have "latest \<in> set st" by (simp add: packs_of_def)
    with assms have get: "R2_get st (key latest) = Some latest"
      by (simp add: R2_get_def wf_bucket_def find_distinct_key)
    from upload_chunks_parts [of "blob latest" 0 "[]"] obtain parts where p:
      "upload_chunks (blob latest) 0 [] = map (\<lambda>c. pktLine (CHR 0x01 # c)) parts"
      "concat parts = blob latest" "\<forall>c\<in>set parts. c \<noteq> [] \<and> length c \<le> MAX_pkt" by auto
    have frames: "pktLine (CHR 0x01 # c)
        = padStart 4 (CHR ''0'') (toString16 (length c + 5)) @ CHR 0x01 # c" if "c \<in> set parts" for c
    proof -
      from p(3) that have "length (CHR 0x01 # c) + 4 < 65536" by (auto simp: MAX_pkt_def)
      from pktLine_hex4 [OF this] toString16_hex4 [of "length c + 5"] this show ?thesis
        by (simp add: add.commute)
    qed
    have "handleUploadPack st org repo
        = Inr \<lparr>status = 200,
               headers = [(''Content-Type'', ''application/x-git-upload-pack-result'')],
               body = concat (map (\<lambda>c. pktLine (CHR 0x01 # c)) parts) @ ''0000''\<rparr>"
      using lne get p(1)
      by (simp add: handleUploadPack_def Let_def list_def [symmetric] P_def [symmetric]
          latest_def [symmetric] concat_chunks_eq pktFlush_def encode_def)
    with l1 l2 p(2,3) frames show ?thesis
      by (intro exI [of _ latest] exI [of _ parts]) (auto simp: MAX_pkt_def)
  qed
  from empty full show ?thesis by blast
qed

theorem upload_pack_serves_latest_witness:
  "wf_bucket [\<lparr>key = ''repos/o/r/objects/pack/pack-b.pack'', uploaded = 1, blob = ''PACKone''\<rparr>,
              \<lparr>key = ''repos/o/r/objects/pack/pack-a.pack'', uploaded = 2, blob = ''PACKtwo''\<rparr>]
   \<and> wf_bucket []
   \<and> handleUploadPack [] ''o'' ''r''
        = Inr \<lparr>status = 200,
               headers = [(''Content-Type'', ''application/x-git-upload-pack-result'')],
               body = ''0000''\<rparr>
   \<and> (\<exists>latest parts.
         latest \<in> set (packs_of
             [\<lparr>key = ''repos/o/r/objects/pack/pack-b.pack'', uploaded = 1, blob = ''PACKone''\<rparr>,
              \<lparr>key = ''repos/o/r/objects/pack/pack-a.pack'', uploaded = 2, blob = ''PACKtwo''\<rparr>]
             ''o'' ''r'')
         \<and> concat parts = blob latest
         \<and> handleUploadPack
             [\<lparr>key = ''repos/o/r/objects/pack/pack-b.pack'', uploaded = 1, blob = ''PACKone''\<rparr>,
              \<lparr>key = ''repos/o/r/objects/pack/pack-a.pack'', uploaded = 2, blob = ''PACKtwo''\<rparr>]
             ''o'' ''r''
            = Inr \<lparr>status = 200,
                   headers = [(''Content-Type'', ''application/x-git-upload-pack-result'')],
                   body = concat (map (\<lambda>c. pktLine (CHR 0x01 # c)) parts) @ ''0000''\<rparr>)"
proof -
  let ?st = "[\<lparr>key = ''repos/o/r/objects/pack/pack-b.pack'', uploaded = 1, blob = ''PACKone''\<rparr>,
              \<lparr>key = ''repos/o/r/objects/pack/pack-a.pack'', uploaded = 2, blob = ''PACKtwo''\<rparr>]"
  have w: "wf_bucket ?st" by code_simp
  have w0: "wf_bucket []" by (simp add: wf_bucket_def)
  have e: "packs_of [] ''o'' ''r'' = []" by (simp add: packs_of_def)
  have n: "packs_of ?st ''o'' ''r'' \<noteq> []" by code_simp
  from upload_pack_serves_latest [OF w0, of "''o''" "''r''"] e
  have a: "handleUploadPack [] ''o'' ''r''
        = Inr \<lparr>status = 200,
               headers = [(''Content-Type'', ''application/x-git-upload-pack-result'')],
               body = ''0000''\<rparr>" by simp
  from upload_pack_serves_latest [OF w, of "''o''" "''r''"] n
  have "\<exists>latest parts.
         latest \<in> set (packs_of ?st ''o'' ''r'')
         \<and> concat parts = blob latest
         \<and> handleUploadPack ?st ''o'' ''r''
            = Inr \<lparr>status = 200,
                   headers = [(''Content-Type'', ''application/x-git-upload-pack-result'')],
                   body = concat (map (\<lambda>c. pktLine (CHR 0x01 # c)) parts) @ ''0000''\<rparr>"
    by blast
  with w w0 a show ?thesis by blast
qed

lemma chunks_small: "upload_chunks ''PACKtwo'' 0 [] = [pktLine (CHR 0x01 # ''PACKtwo'')]"
proof -
  have s: "slice ''PACKtwo'' (Some (int 0)) (Some (int (0 + MAX_pkt))) = ''PACKtwo''"
    by (simp add: slice_def relIndex_def toIndex_def Let_def MAX_pkt_def)
  have e: "upload_chunks ''PACKtwo'' (0 + MAX_pkt) [pktLine (CHR 0x01 # ''PACKtwo'')]
      = [pktLine (CHR 0x01 # ''PACKtwo'')]"
    by (subst upload_chunks.simps) (simp add: MAX_pkt_def)
  show ?thesis
    by (subst upload_chunks.simps) (simp add: Let_def s [simplified] e [simplified] set_at_def)
qed

text \<open>Two packs stored one after the other: the later one is served, in one frame.\<close>

lemma upload_pack_two_packs:
  "handleUploadPack
     (R2_put 5 ''repos/o/r/objects/pack/pack-a.pack'' ''PACKtwo''
        (R2_put 3 ''repos/o/r/objects/pack/pack-b.pack'' ''PACKone'' [])) ''o'' ''r''
   = Inr \<lparr>status = 200,
          headers = [(''Content-Type'', ''application/x-git-upload-pack-result'')],
          body = ''000c'' @ [CHR 0x01] @ ''PACKtwo'' @ ''0000''\<rparr>"
proof -
  let ?one = "\<lparr>key = ''repos/o/r/objects/pack/pack-b.pack'', uploaded = 3, blob = ''PACKone''\<rparr>"
  let ?two = "\<lparr>key = ''repos/o/r/objects/pack/pack-a.pack'', uploaded = 5, blob = ''PACKtwo''\<rparr>"
  have st: "R2_put 5 ''repos/o/r/objects/pack/pack-a.pack'' ''PACKtwo''
        (R2_put 3 ''repos/o/r/objects/pack/pack-b.pack'' ''PACKone'' []) = [?one, ?two]"
    by code_simp
  have l: "R2_list [?one, ?two] (join [''repos'', ''o'', ''r'', ''objects/pack/'']) None = [?two, ?one]"
    by code_simp
  have h: "hd (sort_key (\<lambda>obj. - int (uploaded obj)) [?two, ?one]) = ?two"
    by code_simp
  have g: "R2_get [?one, ?two] ''repos/o/r/objects/pack/pack-a.pack'' = Some ?two"
    by code_simp
  have p: "pktLine (CHR 0x01 # ''PACKtwo'') = ''000c'' @ [CHR 0x01] @ ''PACKtwo''"
    by code_simp
  show ?thesis
    unfolding st handleUploadPack_def Let_def l h
    by (simp add: g chunks_small concat_chunks_eq pktFlush_def encode_def p)
qed

section \<open>Two pushes on one ref\<close>

text \<open>A task that runs alone does what one turn of \<open>process_commands\<close> does.\<close>

lemma one_request_alone:
  assumes "process_commands now base st results [c] = (st', results')"
  shows "\<exists>line. results' = results @ [line]
     \<and> run_step now base (st, Reading c, t) (st, Writing c (readRef st base (ref c)), t)
     \<and> run_step now base (st, Writing c (readRef st base (ref c)), t) (st', Done line, t)"
proof -
  obtain s l where u: "update_ref now base c (readRef st base (ref c)) st = (s, l)"
    by (cases "update_ref now base c (readRef st base (ref c)) st") auto
  with assms have "st' = s" "results' = results @ [l]" by (simp_all add: Let_def)
  with u show ?thesis by (auto intro: run_step.intros)
qed

lemma update_ref_accept:
  assumes "current = old cmd \<or> old cmd = zeroOid"
  shows "update_ref now base cmd current st
    = (R2_put now (join [base, ref cmd]) (new cmd @ ''\<newline>'') st,
       pktLine (''ok '' @ ref cmd @ ''\<newline>''))"
  using assms by (auto simp: update_ref_def Let_def encode_def)

lemma update_ref_reject:
  assumes "current \<noteq> old cmd" "old cmd \<noteq> zeroOid"
  shows "update_ref now base cmd current st
    = (st, pktLine (''ng '' @ ref cmd @ '' non-fast-forward\<newline>''))"
  using assms by (auto simp: update_ref_def Let_def encode_def)

text \<open>
  C2, as amended. Two commands on one ref that declare the same old id, not the zero id and
  equal to the stored id, the first with a valid new id other than the old one: when the
  second reads the ref after the first has written, the first is accepted and the second is
  rejected as non-fast-forward, and the record holds the first new id. A write depends on
  the value its own request has read and on nothing else: when the second has read before
  the first wrote, it is accepted as well and its write replaces the first.
\<close>

theorem pushes_one_after_the_other:
  assumes "readRef st base r = x" "x \<noteq> zeroOid"
    and "old c1 = x" "old c2 = x" "ref c1 = r" "ref c2 = r"
    and "valid_oid (new c1)" "new c1 \<noteq> x"
  shows "process_commands now base st results [c1, c2]
      = (R2_put now (join [base, r]) (new c1 @ ''\<newline>'') st,
         results @ [pktLine (''ok '' @ r @ ''\<newline>''),
                    pktLine (''ng '' @ r @ '' non-fast-forward\<newline>'')])
    \<and> update_ref now base c1 (readRef st base r) st
      = (R2_put now (join [base, r]) (new c1 @ ''\<newline>'') st, pktLine (''ok '' @ r @ ''\<newline>''))
    \<and> update_ref now base c2
         (readRef (R2_put now (join [base, r]) (new c1 @ ''\<newline>'') st) base r)
         (R2_put now (join [base, r]) (new c1 @ ''\<newline>'') st)
      = (R2_put now (join [base, r]) (new c1 @ ''\<newline>'') st,
         pktLine (''ng '' @ r @ '' non-fast-forward\<newline>''))
    \<and> update_ref now base c2 (readRef st base r)
         (R2_put now (join [base, r]) (new c1 @ ''\<newline>'') st)
      = (R2_put now (join [base, r]) (new c2 @ ''\<newline>'')
           (R2_put now (join [base, r]) (new c1 @ ''\<newline>'') st),
         pktLine (''ok '' @ r @ ''\<newline>''))"
proof -
  let ?st1 = "R2_put now (join [base, r]) (new c1 @ ''\<newline>'') st"
  have rb: "readRef ?st1 base r = new c1"
    using readRef_put [of now base r "new c1" st] trim_oid [OF assms(7)] assms(7)
    by (auto simp: encode_def valid_oid_def)
  have u1: "update_ref now base c1 (readRef st base r) st = (?st1, pktLine (''ok '' @ r @ ''\<newline>''))"
    using update_ref_accept [of "readRef st base r" c1 now base st] assms(1,3,5) by simp
  have u2: "update_ref now base c2 (readRef ?st1 base r) ?st1
      = (?st1, pktLine (''ng '' @ r @ '' non-fast-forward\<newline>''))"
    using update_ref_reject [of "readRef ?st1 base r" c2 now base ?st1] rb assms(2,4,6,8) by simp
  have u3: "update_ref now base c2 (readRef st base r) ?st1
      = (R2_put now (join [base, r]) (new c2 @ ''\<newline>'') ?st1, pktLine (''ok '' @ r @ ''\<newline>''))"
    using update_ref_accept [of "readRef st base r" c2 now base ?st1] assms(1,4,6) by simp
  have "process_commands now base st results [c1, c2]
      = (?st1, results @ [pktLine (''ok '' @ r @ ''\<newline>''),
                         pktLine (''ng '' @ r @ '' non-fast-forward\<newline>'')])"
    using u1 u2 assms(5,6) by (simp add: Let_def)
  with u1 u2 u3 show ?thesis by simp
qed

theorem pushes_one_after_the_other_witness:
  "readRef [\<lparr>key = ''repos/o/r/refs/heads/main'', uploaded = 3, blob = replicate 40 (CHR ''a'') @ ''\<newline>''\<rparr>]
      ''repos/o/r'' ''refs/heads/main'' = replicate 40 (CHR ''a'')
   \<and> replicate 40 (CHR ''a'') \<noteq> zeroOid
   \<and> valid_oid (replicate 40 (CHR ''b''))
   \<and> process_commands 5 ''repos/o/r''
        [\<lparr>key = ''repos/o/r/refs/heads/main'', uploaded = 3, blob = replicate 40 (CHR ''a'') @ ''\<newline>''\<rparr>]
        []
        [\<lparr>old = replicate 40 (CHR ''a''), new = replicate 40 (CHR ''b''), ref = ''refs/heads/main''\<rparr>,
         \<lparr>old = replicate 40 (CHR ''a''), new = replicate 40 (CHR ''c''), ref = ''refs/heads/main''\<rparr>]
      = ([\<lparr>key = ''repos/o/r/refs/heads/main'', uploaded = 5, blob = replicate 40 (CHR ''b'') @ ''\<newline>''\<rparr>],
         [pktLine ''ok refs/heads/main\<newline>'', pktLine ''ng refs/heads/main non-fast-forward\<newline>''])"
proof -
  let ?st = "[\<lparr>key = ''repos/o/r/refs/heads/main'', uploaded = 3, blob = replicate 40 (CHR ''a'') @ ''\<newline>''\<rparr>]"
  let ?c1 = "\<lparr>old = replicate 40 (CHR ''a''), new = replicate 40 (CHR ''b''), ref = ''refs/heads/main''\<rparr>"
  let ?c2 = "\<lparr>old = replicate 40 (CHR ''a''), new = replicate 40 (CHR ''c''), ref = ''refs/heads/main''\<rparr>"
  have r: "readRef ?st ''repos/o/r'' ''refs/heads/main'' = replicate 40 (CHR ''a'')" by code_simp
  have z: "replicate 40 (CHR ''a'') \<noteq> zeroOid" by code_simp
  have v: "valid_oid (new ?c1)" by code_simp
  have n: "new ?c1 \<noteq> replicate 40 (CHR ''a'')" by code_simp
  have p: "R2_put 5 (join [''repos/o/r'', ''refs/heads/main'']) (new ?c1 @ ''\<newline>'') ?st
      = [\<lparr>key = ''repos/o/r/refs/heads/main'', uploaded = 5, blob = replicate 40 (CHR ''b'') @ ''\<newline>''\<rparr>]"
    by code_simp
  from pushes_one_after_the_other [OF r z _ _ _ _ v n, of ?c2 5 "[]"] r z v
  show ?thesis unfolding p by simp
qed

text \<open>The claim as stated fails. Both tasks read the stored id \<^verbatim>\<open>aa...a\<close>, then both write:
  both report \<^verbatim>\<open>ok\<close>, and the id \<^verbatim>\<open>bb...b\<close> of the first is lost under \<^verbatim>\<open>cc...c\<close>.\<close>

theorem concurrent_pushes_both_succeed:
  "run_step 5 ''repos/o/r''
     ([\<lparr>key = ''repos/o/r/refs/heads/main'', uploaded = 3, blob = replicate 40 (CHR ''a'') @ ''\<newline>''\<rparr>],
      Reading \<lparr>old = replicate 40 (CHR ''a''), new = replicate 40 (CHR ''b''), ref = ''refs/heads/main''\<rparr>,
      Reading \<lparr>old = replicate 40 (CHR ''a''), new = replicate 40 (CHR ''c''), ref = ''refs/heads/main''\<rparr>)
     ([\<lparr>key = ''repos/o/r/refs/heads/main'', uploaded = 3, blob = replicate 40 (CHR ''a'') @ ''\<newline>''\<rparr>],
      Writing \<lparr>old = replicate 40 (CHR ''a''), new = replicate 40 (CHR ''b''), ref = ''refs/heads/main''\<rparr>
        (replicate 40 (CHR ''a'')),
      Reading \<lparr>old = replicate 40 (CHR ''a''), new = replicate 40 (CHR ''c''), ref = ''refs/heads/main''\<rparr>)
   \<and> run_step 5 ''repos/o/r''
     ([\<lparr>key = ''repos/o/r/refs/heads/main'', uploaded = 3, blob = replicate 40 (CHR ''a'') @ ''\<newline>''\<rparr>],
      Writing \<lparr>old = replicate 40 (CHR ''a''), new = replicate 40 (CHR ''b''), ref = ''refs/heads/main''\<rparr>
        (replicate 40 (CHR ''a'')),
      Reading \<lparr>old = replicate 40 (CHR ''a''), new = replicate 40 (CHR ''c''), ref = ''refs/heads/main''\<rparr>)
     ([\<lparr>key = ''repos/o/r/refs/heads/main'', uploaded = 3, blob = replicate 40 (CHR ''a'') @ ''\<newline>''\<rparr>],
      Writing \<lparr>old = replicate 40 (CHR ''a''), new = replicate 40 (CHR ''b''), ref = ''refs/heads/main''\<rparr>
        (replicate 40 (CHR ''a'')),
      Writing \<lparr>old = replicate 40 (CHR ''a''), new = replicate 40 (CHR ''c''), ref = ''refs/heads/main''\<rparr>
        (replicate 40 (CHR ''a'')))
   \<and> run_step 5 ''repos/o/r''
     ([\<lparr>key = ''repos/o/r/refs/heads/main'', uploaded = 3, blob = replicate 40 (CHR ''a'') @ ''\<newline>''\<rparr>],
      Writing \<lparr>old = replicate 40 (CHR ''a''), new = replicate 40 (CHR ''b''), ref = ''refs/heads/main''\<rparr>
        (replicate 40 (CHR ''a'')),
      Writing \<lparr>old = replicate 40 (CHR ''a''), new = replicate 40 (CHR ''c''), ref = ''refs/heads/main''\<rparr>
        (replicate 40 (CHR ''a'')))
     ([\<lparr>key = ''repos/o/r/refs/heads/main'', uploaded = 5, blob = replicate 40 (CHR ''b'') @ ''\<newline>''\<rparr>],
      Done (pktLine ''ok refs/heads/main\<newline>''),
      Writing \<lparr>old = replicate 40 (CHR ''a''), new = replicate 40 (CHR ''c''), ref = ''refs/heads/main''\<rparr>
        (replicate 40 (CHR ''a'')))
   \<and> run_step 5 ''repos/o/r''
     ([\<lparr>key = ''repos/o/r/refs/heads/main'', uploaded = 5, blob = replicate 40 (CHR ''b'') @ ''\<newline>''\<rparr>],
      Done (pktLine ''ok refs/heads/main\<newline>''),
      Writing \<lparr>old = replicate 40 (CHR ''a''), new = replicate 40 (CHR ''c''), ref = ''refs/heads/main''\<rparr>
        (replicate 40 (CHR ''a'')))
     ([\<lparr>key = ''repos/o/r/refs/heads/main'', uploaded = 5, blob = replicate 40 (CHR ''c'') @ ''\<newline>''\<rparr>],
      Done (pktLine ''ok refs/heads/main\<newline>''),
      Done (pktLine ''ok refs/heads/main\<newline>''))
   \<and> readRef
        [\<lparr>key = ''repos/o/r/refs/heads/main'', uploaded = 5, blob = replicate 40 (CHR ''c'') @ ''\<newline>''\<rparr>]
        ''repos/o/r'' ''refs/heads/main'' = replicate 40 (CHR ''c'')"
proof -
  let ?a = "replicate 40 (CHR ''a'')"
  let ?st0 = "[\<lparr>key = ''repos/o/r/refs/heads/main'', uploaded = 3, blob = ?a @ ''\<newline>''\<rparr>]"
  let ?st1 = "[\<lparr>key = ''repos/o/r/refs/heads/main'', uploaded = 5, blob = replicate 40 (CHR ''b'') @ ''\<newline>''\<rparr>]"
  let ?st2 = "[\<lparr>key = ''repos/o/r/refs/heads/main'', uploaded = 5, blob = replicate 40 (CHR ''c'') @ ''\<newline>''\<rparr>]"
  let ?c1 = "\<lparr>old = ?a, new = replicate 40 (CHR ''b''), ref = ''refs/heads/main''\<rparr>"
  let ?c2 = "\<lparr>old = ?a, new = replicate 40 (CHR ''c''), ref = ''refs/heads/main''\<rparr>"
  let ?ok = "pktLine ''ok refs/heads/main\<newline>''"
  have r1: "readRef ?st0 ''repos/o/r'' (ref ?c1) = ?a" by code_simp
  have r2: "readRef ?st0 ''repos/o/r'' (ref ?c2) = ?a" by code_simp
  have w1: "update_ref 5 ''repos/o/r'' ?c1 ?a ?st0 = (?st1, ?ok)" by code_simp
  have w2: "update_ref 5 ''repos/o/r'' ?c2 ?a ?st1 = (?st2, ?ok)" by code_simp
  have r3: "readRef ?st2 ''repos/o/r'' ''refs/heads/main'' = replicate 40 (CHR ''c'')" by code_simp
  have s1: "run_step 5 ''repos/o/r'' (?st0, Reading ?c1, Reading ?c2) (?st0, Writing ?c1 ?a, Reading ?c2)"
    using run_step.read1 [of 5 "''repos/o/r''" ?st0 ?c1 "Reading ?c2"] unfolding r1 .
  have s2: "run_step 5 ''repos/o/r'' (?st0, Writing ?c1 ?a, Reading ?c2) (?st0, Writing ?c1 ?a, Writing ?c2 ?a)"
    using run_step.read2 [of 5 "''repos/o/r''" ?st0 "Writing ?c1 ?a" ?c2] unfolding r2 .
  have s3: "run_step 5 ''repos/o/r'' (?st0, Writing ?c1 ?a, Writing ?c2 ?a) (?st1, Done ?ok, Writing ?c2 ?a)"
    by (rule run_step.write1 [OF w1])
  have s4: "run_step 5 ''repos/o/r'' (?st1, Done ?ok, Writing ?c2 ?a) (?st2, Done ?ok, Done ?ok)"
    by (rule run_step.write2 [OF w2])
  from s1 s2 s3 s4 r3 show ?thesis by (intro conjI)
qed

end
